theory Spec2Isabelle
  imports Complex_Main
begin

section \<open>Values, errors and tensors\<close>

text \<open>
  The Python exceptions that the modelled code can raise by itself.
\<close>

datatype error = AssertionError | IndexError | NotImplementedError | ZeroDivisionError | KeyError

text \<open>
  Tensor entries and Python floats. A finite value is a real number (rounding and the
  infinities are left out); \<open>NaN\<close> is kept as an element of its own, because the mean of
  an empty tensor is NaN and every comparison with NaN is false.
\<close>

datatype fl = NaN | Val real

fun fneg :: "fl \<Rightarrow> fl" where
  "fneg NaN = NaN"
| "fneg (Val a) = Val (- a)"

fun fmul :: "fl \<Rightarrow> fl \<Rightarrow> fl" where
  "fmul (Val a) (Val b) = Val (a * b)"
| "fmul _ _ = NaN"

fun fadd :: "fl \<Rightarrow> fl \<Rightarrow> fl" where
  "fadd (Val a) (Val b) = Val (a + b)"
| "fadd _ _ = NaN"

text \<open>Python's \<open>a > b\<close> on floats: false as soon as one side is NaN.\<close>

fun fl_gt :: "fl \<Rightarrow> fl \<Rightarrow> bool" where
  "fl_gt (Val a) (Val b) = (b < a)"
| "fl_gt _ _ = False"

text \<open>
  \<open>tensor.mean()\<close> and \<open>np.mean\<close> over a one-dimensional sequence: the sum divided by
  the number of entries, NaN for an empty sequence (0/0) and as soon as an entry is NaN.
\<close>

definition fsum :: "fl list \<Rightarrow> fl" where
  "fsum vs = foldl fadd (Val 0) vs"

definition fmean :: "fl list \<Rightarrow> fl" where
  "fmean vs = (if vs = [] then NaN else fmul (fsum vs) (Val (1 / real (length vs))))"

text \<open>
  \<open>tensor.argmax(1)\<close> on one row: the index of the first maximal entry, where NaN counts
  as larger than every number; an empty row raises.
\<close>

fun greater_or_nan :: "fl \<Rightarrow> fl \<Rightarrow> bool" where
  "greater_or_nan NaN NaN = False"
| "greater_or_nan NaN (Val b) = True"
| "greater_or_nan (Val a) NaN = False"
| "greater_or_nan (Val a) (Val b) = (b < a)"

fun argmax_scan :: "nat \<Rightarrow> fl \<Rightarrow> nat \<Rightarrow> fl list \<Rightarrow> nat" where
  "argmax_scan bi bv i [] = bi"
| "argmax_scan bi bv i (v # vs) =
     (if greater_or_nan v bv then argmax_scan i v (Suc i) vs
      else argmax_scan bi bv (Suc i) vs)"

definition argmax :: "fl list \<Rightarrow> error + nat" where
  "argmax row = (case row of [] \<Rightarrow> Inl IndexError | v # vs \<Rightarrow> Inr (argmax_scan 0 v 1 vs))"

fun collect :: "(error + 'a) list \<Rightarrow> error + 'a list" where
  "collect [] = Inr []"
| "collect (r # rs) =
     (case r of Inl e \<Rightarrow> Inl e
      | Inr a \<Rightarrow> (case collect rs of Inl e \<Rightarrow> Inl e | Inr as \<Rightarrow> Inr (a # as)))"

definition argmax_rows :: "fl list list \<Rightarrow> error + nat list" where
  "argmax_rows m = collect (map argmax m)"

text \<open>A slice \<open>row[a:b]\<close> with \<open>0 \<le> a\<close>: clipped to the row, never an error.\<close>

definition slice :: "nat \<Rightarrow> nat \<Rightarrow> 'a list \<Rightarrow> 'a list" where
  "slice a b row = take (b - a) (drop a row)"

text \<open>\<open>m[i, j] = v\<close> on a matrix stored as a list of rows: out of range raises.\<close>

definition set_entry :: "fl list list \<Rightarrow> nat \<Rightarrow> nat \<Rightarrow> fl \<Rightarrow> error + fl list list" where
  "set_entry m i j v =
     (if i < length m \<and> j < length (m ! i) then Inr (m[i := (m ! i)[j := v]])
      else Inl IndexError)"

definition zeros_like :: "fl list list \<Rightarrow> fl list list" where
  "zeros_like m = map (map (\<lambda>_. Val 0)) m"

section \<open>The episode, the collaborators and the mutable world\<close>

text \<open>
  An episode as \<open>MatchingNet.loss\<close> receives it: the dictionary with the two keys
  \<open>"xs"\<close> and \<open>"xq"\<close>, each a list of class groups of sentences.
\<close>

record sample =
  xs :: "string list list"
  xq :: "string list list"

type_synonym data_dict = "(string \<times> string list) list"

text \<open>
  What the code mutates: the parameters of the network and the state of the optimizer,
  the train/eval mode flag of the module, and the state of the random number generators.
  Two counters are added to observe the calls the claims speak about: the inputs of the
  encoder calls made so far, and the number of optimizer updates.
\<close>

record ('p, 'o, 'r) world =
  params :: 'p
  opt_state :: 'o
  training :: bool
  rng :: 'r
  enc_calls :: "string list list"
  n_updates :: nat

text \<open>
  The collaborators whose code is outside this file: the encoder
  (\<open>models.encoders.bert_encoder\<close>), the two similarity helpers (\<open>utils.math\<close>), the
  episode sampler (\<open>utils.few_shot.create_episode\<close>, which may reorder the dictionary it
  is given and draws from the random number generator), the cross entropy of the tensor
  library, and the gradient step (\<open>zero_grad\<close>, \<open>backward\<close>, \<open>optimizer.step\<close>).
\<close>

record ('v, 'p, 'o, 'r) env =
  forward :: "'p \<Rightarrow> bool \<Rightarrow> string list \<Rightarrow> 'r \<Rightarrow> 'v list \<times> 'r"
  euclidean_dist :: "'v list \<Rightarrow> 'v list \<Rightarrow> fl list list"
  cosine_similarity :: "'v list \<Rightarrow> 'v list \<Rightarrow> fl list list"
  cross_entropy :: "fl list list \<Rightarrow> nat list \<Rightarrow> fl"
  create_episode :: "data_dict \<Rightarrow> int \<Rightarrow> int \<Rightarrow> int \<Rightarrow> 'r
                       \<Rightarrow> (error + sample) \<times> data_dict \<times> 'r"
  backward_step :: "'p \<Rightarrow> 'o \<Rightarrow> sample \<Rightarrow> 'r \<Rightarrow> 'p \<times> 'o"

section \<open>MatchingNet\<close>

text \<open>\<open>MatchingNet.__init__\<close>: the metric is asserted to be one of the two names.\<close>

definition MatchingNet_init :: "string \<Rightarrow> error + string" where
  "MatchingNet_init metric =
     (if metric = ''cosine'' \<or> metric = ''euclidean'' then Inr metric else Inl AssertionError)"

text \<open>Lines 67 to 72 of \<open>loss\<close>: the similarity matrix of the queries against the supports.\<close>

definition similarity ::
  "('v, 'p, 'o, 'r) env \<Rightarrow> string \<Rightarrow> 'v list \<Rightarrow> 'v list \<Rightarrow> error + fl list list" where
  "similarity E metric z_query z_support =
     (if metric = ''euclidean'' then Inr (map (map fneg) (euclidean_dist E z_query z_support))
      else if metric = ''cosine'' then
        Inr (map (map (\<lambda>v. fmul v (Val 5))) (cosine_similarity E z_query z_support))
      else Inl NotImplementedError)"

text \<open>
  Line 75: for every class \<open>c\<close> the mean over the columns \<open>c * n_support\<close> up to
  \<open>(c + 1) * n_support\<close> of every row, the \<open>n_class\<close> results stacked and transposed.
\<close>

definition class_mean :: "nat \<Rightarrow> fl list list \<Rightarrow> nat \<Rightarrow> fl list" where
  "class_mean n_support similarities c =
     map (\<lambda>row. fmean (slice (c * n_support) ((c + 1) * n_support) row)) similarities"

definition class_scores :: "nat \<Rightarrow> nat \<Rightarrow> fl list list \<Rightarrow> fl list list" where
  "class_scores n_class n_support similarities =
     transpose (map (class_mean n_support similarities) [0..<n_class])"

text \<open>Lines 78 to 80: the two nested \<open>enumerate\<close> loops that write the ones.\<close>

fun fill_sentences ::
  "nat \<Rightarrow> nat \<Rightarrow> nat \<Rightarrow> string list \<Rightarrow> fl list list \<Rightarrow> error + fl list list" where
  "fill_sentences n_query ix_class ix_sentence [] m = Inr m"
| "fill_sentences n_query ix_class ix_sentence (sentence # rest) m =
     (case set_entry m (ix_class * n_query + ix_sentence) ix_class (Val 1) of
        Inl e \<Rightarrow> Inl e
      | Inr m' \<Rightarrow> fill_sentences n_query ix_class (Suc ix_sentence) rest m')"

fun fill_classes ::
  "nat \<Rightarrow> nat \<Rightarrow> string list list \<Rightarrow> fl list list \<Rightarrow> error + fl list list" where
  "fill_classes n_query ix_class [] m = Inr m"
| "fill_classes n_query ix_class (class_query_sentences # rest) m =
     (case fill_sentences n_query ix_class 0 class_query_sentences m of
        Inl e \<Rightarrow> Inl e
      | Inr m' \<Rightarrow> fill_classes n_query (Suc ix_class) rest m')"

text \<open>The tensors that \<open>loss\<close> builds on the way, lines 54 to 80.\<close>

record 'v tensors =
  x_flat :: "string list"
  z_support :: "'v list"
  z_query :: "'v list"
  similarities :: "fl list list"
  distances_from_query_to_classes :: "fl list list"
  true_labels :: "fl list list"

definition loss_tensors ::
  "('v, 'p, 'o, 'r) env \<Rightarrow> string \<Rightarrow> sample \<Rightarrow> ('p, 'o, 'r) world
     \<Rightarrow> (error + 'v tensors) \<times> ('p, 'o, 'r) world" where
  "loss_tensors E metric smp w =
     (let n_class = length (xs smp) in
      if length (xq smp) \<noteq> n_class then (Inl AssertionError, w)
      else case xs smp of [] \<Rightarrow> (Inl IndexError, w)
      | xs0 # _ \<Rightarrow>
       (case xq smp of [] \<Rightarrow> (Inl IndexError, w)
        | xq0 # _ \<Rightarrow>
          (let n_support = length xs0;
               n_query = length xq0;
               x = concat (xs smp) @ concat (xq smp);
               (z, r') = forward E (params w) (training w) x (rng w);
               w' = w\<lparr>rng := r', enc_calls := enc_calls w @ [x]\<rparr>;
               zs = take (n_class * n_support) z;
               zq = drop (n_class * n_support) z
           in case similarity E metric zq zs of
                Inl e \<Rightarrow> (Inl e, w')
              | Inr sims \<Rightarrow>
                 (let d = class_scores n_class n_support sims
                  in case fill_classes n_query 0 (xq smp) (zeros_like d) of
                       Inl e \<Rightarrow> (Inl e, w')
                     | Inr lab \<Rightarrow>
                        (Inr \<lparr>x_flat = x, z_support = zs, z_query = zq, similarities = sims,
                              distances_from_query_to_classes = d, true_labels = lab\<rparr>, w')))))"

text \<open>The metrics dictionary that \<open>loss\<close> returns beside the loss tensor.\<close>

record loss_dict =
  loss_val :: fl
  acc_val :: fl
  y_hat :: "nat list"

definition hits :: "nat list \<Rightarrow> nat list \<Rightarrow> fl list" where
  "hits tgt pred = map (\<lambda>(t, p). if t = p then Val 1 else Val 0) (zip tgt pred)"

definition loss ::
  "('v, 'p, 'o, 'r) env \<Rightarrow> string \<Rightarrow> sample \<Rightarrow> ('p, 'o, 'r) world
     \<Rightarrow> (error + loss_dict) \<times> ('p, 'o, 'r) world" where
  "loss E metric smp w =
     (case loss_tensors E metric smp w of
        (Inl e, w') \<Rightarrow> (Inl e, w')
      | (Inr T, w') \<Rightarrow>
         (case argmax_rows (true_labels T) of
            Inl e \<Rightarrow> (Inl e, w')
          | Inr tgt \<Rightarrow>
             (case argmax_rows (distances_from_query_to_classes T) of
                Inl e \<Rightarrow> (Inl e, w')
              | Inr pred \<Rightarrow>
                 (Inr \<lparr>loss_val = cross_entropy E (distances_from_query_to_classes T) tgt,
                       acc_val = fmean (hits tgt pred),
                       y_hat = pred\<rparr>, w'))))"


text \<open>
  \<open>train_step\<close>: one episode from the sampler, the module switched to training mode,
  the loss, then the gradient step. An exception leaves parameters and optimizer as
  they were.
\<close>

definition train_step ::
  "('v, 'p, 'o, 'r) env \<Rightarrow> string \<Rightarrow> data_dict \<Rightarrow> int \<Rightarrow> int \<Rightarrow> int \<Rightarrow> ('p, 'o, 'r) world
     \<Rightarrow> (error + loss_dict) \<times> data_dict \<times> ('p, 'o, 'r) world" where
  "train_step E metric data n_support n_classes n_query w =
     (case create_episode E data n_support n_classes n_query (rng w) of
        (Inl e, dd, r) \<Rightarrow> (Inl e, dd, w\<lparr>rng := r\<rparr>)
      | (Inr episode, dd, r) \<Rightarrow>
         (let w1 = w\<lparr>training := True, rng := r\<rparr>
          in case loss E metric episode w1 of
               (Inl e, w2) \<Rightarrow> (Inl e, dd, w2)
             | (Inr ld, w2) \<Rightarrow>
                (let (p', o') = backward_step E (params w2) (opt_state w2) episode (rng w1)
                 in (Inr ld, dd,
                     w2\<lparr>params := p', opt_state := o', n_updates := Suc (n_updates w2)\<rparr>))))"

text \<open>
  \<open>test_step\<close>: the module switched to evaluation mode, then \<open>n_episodes\<close> episodes,
  each sampled and scored; the result is the mean loss and the mean accuracy.
\<close>

fun test_episodes ::
  "('v, 'p, 'o, 'r) env \<Rightarrow> string \<Rightarrow> int \<Rightarrow> int \<Rightarrow> int \<Rightarrow> nat \<Rightarrow> data_dict
     \<Rightarrow> ('p, 'o, 'r) world \<Rightarrow> fl list \<Rightarrow> fl list
     \<Rightarrow> (error + fl list \<times> fl list) \<times> data_dict \<times> ('p, 'o, 'r) world" where
  "test_episodes E metric n_support n_classes n_query 0 data w accuracies losses =
     (Inr (accuracies, losses), data, w)"
| "test_episodes E metric n_support n_classes n_query (Suc i) data w accuracies losses =
     (case create_episode E data n_support n_classes n_query (rng w) of
        (Inl e, dd, r) \<Rightarrow> (Inl e, dd, w\<lparr>rng := r\<rparr>)
      | (Inr episode, dd, r) \<Rightarrow>
         (case loss E metric episode (w\<lparr>rng := r\<rparr>) of
            (Inl e, w') \<Rightarrow> (Inl e, dd, w')
          | (Inr ld, w') \<Rightarrow>
             test_episodes E metric n_support n_classes n_query i dd w'
               (accuracies @ [acc_val ld]) (losses @ [loss_val ld])))"

record results =
  results_loss :: fl
  results_acc :: fl

definition test_step ::
  "('v, 'p, 'o, 'r) env \<Rightarrow> string \<Rightarrow> data_dict \<Rightarrow> int \<Rightarrow> int \<Rightarrow> int \<Rightarrow> int
     \<Rightarrow> ('p, 'o, 'r) world \<Rightarrow> (error + results) \<times> data_dict \<times> ('p, 'o, 'r) world" where
  "test_step E metric data n_support n_classes n_query n_episodes w =
     (case test_episodes E metric n_support n_classes n_query (nat n_episodes) data
             (w\<lparr>training := False\<rparr>) [] [] of
        (Inl e, dd, w') \<Rightarrow> (Inl e, dd, w')
      | (Inr (accuracies, losses), dd, w') \<Rightarrow>
          (Inr \<lparr>results_loss = fmean losses, results_acc = fmean accuracies\<rparr>, dd, w'))"

section \<open>The training loop of \<open>run_matching\<close>\<close>

text \<open>
  The arguments of \<open>run_matching\<close> that the loop reads. A held-out split is configured
  when its path is given; the loop then holds its dictionary, and \<open>None\<close> otherwise
  (lines 193 to 205), so the test \<open>if path\<close> is the test that the dictionary is there.
\<close>

record config =
  n_support :: int
  n_query :: int
  n_classes :: int
  max_iter :: int
  evaluate_every :: int
  early_stop :: "int option"
  n_test_episodes :: int
  log_every :: int
  metric :: string

record log_record =
  rec_accuracy :: fl
  rec_loss :: fl
  global_step :: nat

record ('p, 'o, 'r) run_state =
  wld :: "('p, 'o, 'r) world"
  train_data_dict :: data_dict
  valid_data_dict :: "data_dict option"
  test_data_dict :: "data_dict option"
  train_accuracies :: "fl list"
  train_losses :: "fl list"
  n_eval_since_last_best :: nat
  best_valid_acc :: fl
  log_dict :: "string \<rightharpoonup> log_record list"

text \<open>Lines 162 to 171 and 207 to 210: the state the loop starts from.\<close>

definition init_log_dict :: "bool \<Rightarrow> bool \<Rightarrow> string \<rightharpoonup> log_record list" where
  "init_log_dict has_valid has_test =
     (\<lambda>k. if k = ''train'' then Some []
          else if k = ''valid'' \<and> has_valid then Some []
          else if k = ''test'' \<and> has_test then Some []
          else None)"

definition init_state ::
  "('p, 'o, 'r) world \<Rightarrow> data_dict \<Rightarrow> data_dict option \<Rightarrow> data_dict option
     \<Rightarrow> ('p, 'o, 'r) run_state" where
  "init_state w train valid test =
     \<lparr>wld = w, train_data_dict = train, valid_data_dict = valid, test_data_dict = test,
      train_accuracies = [], train_losses = [],
      n_eval_since_last_best = 0, best_valid_acc = Val 0,
      log_dict = init_log_dict (valid \<noteq> None) (test \<noteq> None)\<rparr>"

definition log_append ::
  "string \<Rightarrow> log_record \<Rightarrow> (string \<rightharpoonup> log_record list)
     \<Rightarrow> error + (string \<rightharpoonup> log_record list)" where
  "log_append key r ld =
     (case ld key of None \<Rightarrow> Inl KeyError | Some l \<Rightarrow> Inr (ld(key \<mapsto> l @ [r])))"

text \<open>Lines 224 to 244: the training log record and the reset of the window.\<close>

definition log_train :: "nat \<Rightarrow> ('p, 'o, 'r) run_state \<Rightarrow> error + ('p, 'o, 'r) run_state" where
  "log_train step st =
     (case log_append ''train''
             \<lparr>rec_accuracy = fmean (train_accuracies st), rec_loss = fmean (train_losses st),
              global_step = step\<rparr> (log_dict st) of
        Inl e \<Rightarrow> Inl e
      | Inr ld \<Rightarrow> Inr (st\<lparr>log_dict := ld, train_accuracies := [], train_losses := []\<rparr>))"

text \<open>Lines 280 to 287: the bookkeeping after a validation evaluation.\<close>

definition track_valid :: "fl \<Rightarrow> ('p, 'o, 'r) run_state \<Rightarrow> ('p, 'o, 'r) run_state" where
  "track_valid acc st =
     (if fl_gt acc (best_valid_acc st)
      then st\<lparr>best_valid_acc := acc, n_eval_since_last_best := 0\<rparr>
      else st\<lparr>n_eval_since_last_best := n_eval_since_last_best st + 1\<rparr>)"

definition set_data :: "string \<Rightarrow> ('p, 'o, 'r) run_state \<Rightarrow> data_dict option" where
  "set_data set_type st = (if set_type = ''valid'' then valid_data_dict st else test_data_dict st)"

definition put_set_data ::
  "string \<Rightarrow> data_dict \<Rightarrow> ('p, 'o, 'r) run_state \<Rightarrow> ('p, 'o, 'r) run_state" where
  "put_set_data set_type dd st =
     (if set_type = ''valid'' then st\<lparr>valid_data_dict := Some dd\<rparr>
      else st\<lparr>test_data_dict := Some dd\<rparr>)"

text \<open>Lines 254 to 287: one split of the evaluation cycle.\<close>

definition evaluate_split ::
  "('v, 'p, 'o, 'r) env \<Rightarrow> config \<Rightarrow> nat \<Rightarrow> string \<Rightarrow> ('p, 'o, 'r) run_state
     \<Rightarrow> error + ('p, 'o, 'r) run_state" where
  "evaluate_split E cfg step set_type st =
     (case set_data set_type st of
        None \<Rightarrow> Inr st
      | Some data \<Rightarrow>
         (case test_step E (metric cfg) data (n_support cfg) (n_classes cfg) (n_query cfg)
                 (n_test_episodes cfg) (wld st) of
            (Inl e, dd, w) \<Rightarrow> Inl e
          | (Inr set_results, dd, w) \<Rightarrow>
             (case log_append set_type
                     \<lparr>rec_accuracy = results_acc set_results,
                      rec_loss = results_loss set_results, global_step = step\<rparr>
                     (log_dict st) of
                Inl e \<Rightarrow> Inl e
              | Inr ld \<Rightarrow>
                 (let st1 = put_set_data set_type dd (st\<lparr>wld := w, log_dict := ld\<rparr>)
                  in Inr (if set_type = ''valid''
                          then track_valid (results_acc set_results) st1 else st1)))))"

fun evaluate_splits ::
  "('v, 'p, 'o, 'r) env \<Rightarrow> config \<Rightarrow> nat \<Rightarrow> string list \<Rightarrow> ('p, 'o, 'r) run_state
     \<Rightarrow> error + ('p, 'o, 'r) run_state" where
  "evaluate_splits E cfg step [] st = Inr st"
| "evaluate_splits E cfg step (set_type # rest) st =
     (case evaluate_split E cfg step set_type st of
        Inl e \<Rightarrow> Inl e
      | Inr st' \<Rightarrow> evaluate_splits E cfg step rest st')"

text \<open>Line 289: \<open>early_stop and n_eval_since_last_best >= early_stop\<close>.\<close>

definition early_stop_now :: "config \<Rightarrow> ('p, 'o, 'r) run_state \<Rightarrow> bool" where
  "early_stop_now cfg st =
     (case early_stop cfg of
        None \<Rightarrow> False
      | Some e \<Rightarrow> e \<noteq> 0 \<and> e \<le> int (n_eval_since_last_best st))"

datatype flow = Continue | Break

text \<open>Lines 213 to 291: the body of the loop for one value of \<open>step\<close>.\<close>

definition loop_body ::
  "('v, 'p, 'o, 'r) env \<Rightarrow> config \<Rightarrow> nat \<Rightarrow> ('p, 'o, 'r) run_state
     \<Rightarrow> error + ('p, 'o, 'r) run_state \<times> flow" where
  "loop_body E cfg step st =
     (case train_step E (metric cfg) (train_data_dict st) (n_support cfg) (n_classes cfg)
             (n_query cfg) (wld st) of
        (Inl e, dd, w) \<Rightarrow> Inl e
      | (Inr ld, dd, w) \<Rightarrow>
         (let st1 = st\<lparr>wld := w, train_data_dict := dd,
                       train_accuracies := train_accuracies st @ [acc_val ld],
                       train_losses := train_losses st @ [loss_val ld]\<rparr>
          in if log_every cfg = 0 then Inl ZeroDivisionError
             else case (if (int step + 1) mod log_every cfg = 0 then log_train step st1
                        else Inr st1) of
                    Inl e \<Rightarrow> Inl e
                  | Inr st2 \<Rightarrow>
                     (if valid_data_dict st2 \<noteq> None \<or> test_data_dict st2 \<noteq> None then
                        (if evaluate_every cfg = 0 then Inl ZeroDivisionError
                         else if (int step + 1) mod evaluate_every cfg = 0 then
                           (case evaluate_splits E cfg step [''valid'', ''test''] st2 of
                              Inl e \<Rightarrow> Inl e
                            | Inr st3 \<Rightarrow>
                               Inr (st3, if early_stop_now cfg st3 then Break else Continue))
                         else Inr (st2, Continue))
                      else Inr (st2, Continue))))"

text \<open>
  Line 212: \<open>for step in range(max_iter)\<close>. The result says how the loop was left:
  \<open>Break\<close> by the early stop, \<open>Continue\<close> when the range was used up.
\<close>

function training_loop ::
  "('v, 'p, 'o, 'r) env \<Rightarrow> config \<Rightarrow> nat \<Rightarrow> ('p, 'o, 'r) run_state
     \<Rightarrow> error + ('p, 'o, 'r) run_state \<times> flow" where
  "training_loop E cfg step st =
     (if int step < max_iter cfg then
        (case loop_body E cfg step st of
           Inl e \<Rightarrow> Inl e
         | Inr (st', how) \<Rightarrow>
            (if how = Break then Inr (st', Break) else training_loop E cfg (Suc step) st'))
      else Inr (st, Continue))"
  by pat_completeness auto
termination
  by (relation "measure (\<lambda>(E, cfg, step, st). nat (max_iter cfg) - step)") auto

declare training_loop.simps [simp del]

definition run_matching ::
  "('v, 'p, 'o, 'r) env \<Rightarrow> config \<Rightarrow> ('p, 'o, 'r) world \<Rightarrow> data_dict \<Rightarrow> data_dict option
     \<Rightarrow> data_dict option \<Rightarrow> error + ('p, 'o, 'r) run_state \<times> flow" where
  "run_matching E cfg w train valid test = training_loop E cfg 0 (init_state w train valid test)"


section \<open>Well-formed episodes and the contracts of the collaborators\<close>

text \<open>
  An episode with \<open>N\<close> classes, \<open>K\<close> support items and \<open>Q\<close> query items per class, all
  three positive: both sides have \<open>N\<close> class groups, every support group has \<open>K\<close> items
  and every query group has \<open>Q\<close> items.
\<close>

definition well_formed :: "nat \<Rightarrow> nat \<Rightarrow> nat \<Rightarrow> sample \<Rightarrow> bool" where
  "well_formed N K Q smp \<longleftrightarrow>
     0 < N \<and> 0 < K \<and> 0 < Q \<and> length (xs smp) = N \<and> length (xq smp) = N \<and>
     (\<forall>g \<in> set (xs smp). length g = K) \<and> (\<forall>g \<in> set (xq smp). length g = Q)"

text \<open>The encoder returns one embedding per input item.\<close>

definition encoder_ok :: "('v, 'p, 'o, 'r) env \<Rightarrow> bool" where
  "encoder_ok E \<longleftrightarrow> (\<forall>p t x r. length (fst (forward E p t x r)) = length x)"

text \<open>The similarity helpers return one row per query embedding.\<close>

definition similarity_rows :: "('v, 'p, 'o, 'r) env \<Rightarrow> bool" where
  "similarity_rows E \<longleftrightarrow>
     (\<forall>q s. length (euclidean_dist E q s) = length q \<and>
            length (cosine_similarity E q s) = length q)"

text \<open>
  On every dictionary that satisfies \<open>D\<close> the sampler returns a well-formed episode of
  the requested shape and leaves a dictionary that satisfies \<open>D\<close> again.
\<close>

definition sampler_ok ::
  "('v, 'p, 'o, 'r) env \<Rightarrow> nat \<Rightarrow> nat \<Rightarrow> nat \<Rightarrow> (data_dict \<Rightarrow> bool) \<Rightarrow> bool" where
  "sampler_ok E N K Q D \<longleftrightarrow>
     (\<forall>dd r. D dd \<longrightarrow> (\<exists>smp dd' r'.
        create_episode E dd (int K) (int N) (int Q) r = (Inr smp, dd', r') \<and>
        well_formed N K Q smp \<and> D dd'))"

definition mat_ok :: "nat \<Rightarrow> nat \<Rightarrow> 'a list list \<Rightarrow> bool" where
  "mat_ok R N m \<longleftrightarrow> length m = R \<and> (\<forall>i<R. length (m ! i) = N)"

text \<open>The one-hot row of length \<open>N\<close> for class \<open>c\<close>.\<close>

definition one_hot :: "nat \<Rightarrow> nat \<Rightarrow> fl list" where
  "one_hot N c = map (\<lambda>k. if k = c then Val 1 else Val 0) [0..<N]"

section \<open>The validation history, read from the log\<close>

text \<open>
  The accuracies of the validation evaluations of a run, in order, as the log holds them,
  and what the specification says of them: the best accuracy is the largest finite value
  seen, or 0.0 when none exceeds it; an evaluation is an improvement when its accuracy is
  a number strictly above 0.0 and above every number seen before; the counter is the
  number of evaluations after the last improvement.
\<close>

definition valid_accs :: "('p, 'o, 'r) run_state \<Rightarrow> fl list" where
  "valid_accs st = (case log_dict st ''valid'' of None \<Rightarrow> [] | Some l \<Rightarrow> map rec_accuracy l)"

fun finite_vals :: "fl list \<Rightarrow> real list" where
  "finite_vals [] = []"
| "finite_vals (NaN # vs) = finite_vals vs"
| "finite_vals (Val a # vs) = a # finite_vals vs"

definition best_seen :: "fl list \<Rightarrow> fl" where
  "best_seen accs = Val (Max (set (0 # finite_vals accs)))"

definition improvement_at :: "fl list \<Rightarrow> nat \<Rightarrow> bool" where
  "improvement_at accs i =
     (case accs ! i of NaN \<Rightarrow> False
      | Val a \<Rightarrow> (\<forall>b \<in> set (0 # finite_vals (take i accs)). b < a))"

definition evals_since_improvement :: "fl list \<Rightarrow> nat" where
  "evals_since_improvement accs =
     length (takeWhile (\<lambda>i. \<not> improvement_at accs i) (rev [0..<length accs]))"

text \<open>
  The counter and the best accuracy of a state agree with its validation history.
\<close>

definition counter_consistent :: "('p, 'o, 'r) run_state \<Rightarrow> bool" where
  "counter_consistent st \<longleftrightarrow>
     n_eval_since_last_best st = evals_since_improvement (valid_accs st) \<and>
     best_valid_acc st = best_seen (valid_accs st)"

section \<open>The similarity helpers\<close>

text \<open>
  The dot product and the Euclidean norm of embedding vectors held as lists of reals.
\<close>

definition dot :: "real list \<Rightarrow> real list \<Rightarrow> real" where
  "dot a b = sum_list (map (\<lambda>(u, v). u * v) (zip a b))"

definition vec_norm :: "real list \<Rightarrow> real" where
  "vec_norm a = sqrt (dot a a)"

text \<open>
  Modelled from the spec: \<open>utils.math.euclidean_dist\<close>, which is not in this file. For a
  matrix of \<open>n_q\<close> query rows and a matrix of \<open>n_s\<close> support rows of one dimension it
  returns the \<open>n_q\<close> by \<open>n_s\<close> matrix of the pairwise Euclidean distances of the rows.
\<close>

definition spec_euclidean_dist :: "real list list \<Rightarrow> real list list \<Rightarrow> fl list list" where
  "spec_euclidean_dist x y =
     map (\<lambda>a. map (\<lambda>b. Val (vec_norm (map (\<lambda>(u, v). u - v) (zip a b)))) y) x"

text \<open>
  Modelled from the spec: \<open>utils.math.cosine_similarity\<close>, which is not in this file. It
  returns the \<open>n_q\<close> by \<open>n_s\<close> matrix of the pairwise cosine similarities of the rows:
  the dot product over the product of the norms, which is 0/0, NaN, when a row is the
  zero vector.
\<close>

definition spec_cosine_similarity :: "real list list \<Rightarrow> real list list \<Rightarrow> fl list list" where
  "spec_cosine_similarity x y =
     map (\<lambda>a. map (\<lambda>b. if vec_norm a = 0 \<or> vec_norm b = 0 then NaN
                      else Val (dot a b / (vec_norm a * vec_norm b))) y) x"

section \<open>A small concrete instance of the collaborators\<close>

text \<open>
  One-dimensional embeddings: a sentence is embedded as its length times the single
  parameter of the network. The sampler takes the first classes after a rotation by the
  generator state, the first items of each class, and rotates every class list in place,
  as the specification has the sampler reorder the items of a class in the dictionary.
\<close>

definition demo_forward :: "real \<Rightarrow> bool \<Rightarrow> string list \<Rightarrow> nat \<Rightarrow> real list \<times> nat" where
  "demo_forward p t x r = (map (\<lambda>s. p * real (length s)) x, if t then Suc r else r)"

definition demo_euclidean_dist :: "real list \<Rightarrow> real list \<Rightarrow> fl list list" where
  "demo_euclidean_dist q s = map (\<lambda>a. map (\<lambda>b. Val \<bar>a - b\<bar>) s) q"

definition demo_cosine_similarity :: "real list \<Rightarrow> real list \<Rightarrow> fl list list" where
  "demo_cosine_similarity q s =
     map (\<lambda>a. map (\<lambda>b. if a = 0 \<or> b = 0 then NaN else Val (sgn a * sgn b)) s) q"

fun val_of :: "fl \<Rightarrow> real" where
  "val_of NaN = 0"
| "val_of (Val a) = a"

text \<open>
  A stand-in for the cross entropy of the tensor library that can be evaluated: per row
  the shortfall of the target logit from the largest logit, averaged over the rows.
\<close>

definition demo_nll :: "fl list \<Rightarrow> nat \<Rightarrow> fl" where
  "demo_nll row t =
     (if NaN \<in> set row \<or> length row \<le> t then NaN
      else Val (Max (set (map val_of row)) - val_of (row ! t)))"

definition demo_cross_entropy :: "fl list list \<Rightarrow> nat list \<Rightarrow> fl" where
  "demo_cross_entropy logits tgt = fmean (map (\<lambda>(row, t). demo_nll row t) (zip logits tgt))"

definition demo_create_episode ::
  "data_dict \<Rightarrow> int \<Rightarrow> int \<Rightarrow> int \<Rightarrow> nat \<Rightarrow> (error + sample) \<times> data_dict \<times> nat" where
  "demo_create_episode dd ns nc nq r =
     (if ns < 0 \<or> nq < 0 \<or> nc < 0 \<or> int (length dd) < nc \<or>
         (\<exists>kv \<in> set dd. int (length (snd kv)) < ns + nq)
      then (Inl AssertionError, dd, r)
      else (let chosen = take (nat nc) (rotate r dd)
            in (Inr \<lparr>xs = map (\<lambda>kv. take (nat ns) (snd kv)) chosen,
                      xq = map (\<lambda>kv. take (nat nq) (drop (nat ns) (snd kv))) chosen\<rparr>,
                map (\<lambda>kv. (fst kv, rotate1 (snd kv))) dd, Suc r)))"

definition demo_backward_step :: "real \<Rightarrow> nat \<Rightarrow> sample \<Rightarrow> nat \<Rightarrow> real \<times> nat" where
  "demo_backward_step p opt episode r = (p + 1 / 2, Suc opt)"

definition demo_env :: "(real, real, nat, nat) env" where
  "demo_env =
     \<lparr>forward = demo_forward, euclidean_dist = demo_euclidean_dist,
      cosine_similarity = demo_cosine_similarity, cross_entropy = demo_cross_entropy,
      create_episode = demo_create_episode, backward_step = demo_backward_step\<rparr>"

text \<open>
  The same instance with two-dimensional embeddings and the two similarity helpers as
  the specification has them.
\<close>

definition demo_vec_forward :: "real \<Rightarrow> bool \<Rightarrow> string list \<Rightarrow> nat \<Rightarrow> real list list \<times> nat" where
  "demo_vec_forward p t x r = (map (\<lambda>s. [p * real (length s), 1]) x, if t then Suc r else r)"

definition demo_vec_env :: "(real list, real, nat, nat) env" where
  "demo_vec_env =
     \<lparr>forward = demo_vec_forward, euclidean_dist = spec_euclidean_dist,
      cosine_similarity = spec_cosine_similarity, cross_entropy = demo_cross_entropy,
      create_episode = demo_create_episode, backward_step = demo_backward_step\<rparr>"

text \<open>
  The same instance with a sampler that draws the same episode and leaves the
  dictionary as it is.
\<close>

definition demo_static_episode ::
  "data_dict \<Rightarrow> int \<Rightarrow> int \<Rightarrow> int \<Rightarrow> nat \<Rightarrow> (error + sample) \<times> data_dict \<times> nat" where
  "demo_static_episode dd ns nc nq r =
     (case demo_create_episode dd ns nc nq r of (res, dd', r') \<Rightarrow> (res, dd, r'))"

definition demo_static_env :: "(real, real, nat, nat) env" where
  "demo_static_env = demo_env\<lparr>create_episode := demo_static_episode\<rparr>"

definition demo_world :: "(real, nat, nat) world" where
  "demo_world = \<lparr>params = 1, opt_state = 0, training = True, rng = 0, enc_calls = [], n_updates = 0\<rparr>"

definition demo_data :: data_dict where
  "demo_data = [(''a'', [''x'', ''xx'']), (''b'', [''yyyyy'', ''yyyy''])]"

text \<open>
  A dictionary on which the episode drawn after one rotation of the class lists is
  classified better than the episode drawn before it.
\<close>

definition demo_order_data :: data_dict where
  "demo_order_data = [(''a'', [''x'', ''xx'']), (''b'', [''yyyyyyyyyyy'', ''yyy''])]"

text \<open>A dictionary on which the nearest support item of every query is of the other class.\<close>

definition demo_hard_data :: data_dict where
  "demo_hard_data = [(''a'', [''x'', ''xxxx'']), (''b'', [''yyyyy'', ''yy''])]"

text \<open>Dictionaries the sampler of the instance can serve two classes of two items from.\<close>

definition demo_data_ok :: "data_dict \<Rightarrow> bool" where
  "demo_data_ok dd \<longleftrightarrow> 2 \<le> length dd \<and> (\<forall>kv \<in> set dd. 2 \<le> length (snd kv))"

definition demo_config :: config where
  "demo_config =
     \<lparr>n_support = 1, n_query = 1, n_classes = 2, max_iter = 2, evaluate_every = 1,
      early_stop = Some 1, n_test_episodes = 1, log_every = 1, metric = ''euclidean''\<rparr>"

section \<open>What a step reads and what it leaves alone\<close>

text \<open>
  Two worlds look the same to the forward pass when parameters, mode flag and generator
  state agree; a step leaves the core of the world alone when parameters, optimizer
  state, mode flag and the number of updates are as before.
\<close>

definition same_view :: "('p, 'o, 'r) world \<Rightarrow> ('p, 'o, 'r) world \<Rightarrow> bool" where
  "same_view w1 w2 \<longleftrightarrow> params w1 = params w2 \<and> training w1 = training w2 \<and> rng w1 = rng w2"

definition same_core :: "('p, 'o, 'r) world \<Rightarrow> ('p, 'o, 'r) world \<Rightarrow> bool" where
  "same_core w1 w2 \<longleftrightarrow> params w1 = params w2 \<and> opt_state w1 = opt_state w2 \<and>
     training w1 = training w2 \<and> n_updates w1 = n_updates w2"

text \<open>
  A held-out split is configured; and what an evaluation cycle keeps of a state: the
  number of updates, which splits are configured, the training log, and the agreement
  of the counter with the validation history.
\<close>

definition heldout :: "('p, 'o, 'r) run_state \<Rightarrow> bool" where
  "heldout st \<longleftrightarrow> valid_data_dict st \<noteq> None \<or> test_data_dict st \<noteq> None"

definition eval_keeps :: "('p, 'o, 'r) run_state \<Rightarrow> ('p, 'o, 'r) run_state \<Rightarrow> bool" where
  "eval_keeps st st' \<longleftrightarrow>
     n_updates (wld st') = n_updates (wld st) \<and>
     (valid_data_dict st' = None) = (valid_data_dict st = None) \<and>
     (test_data_dict st' = None) = (test_data_dict st = None) \<and>
     log_dict st' ''train'' = log_dict st ''train'' \<and>
     (counter_consistent st \<longrightarrow> counter_consistent st')"

section \<open>Shapes and the label matrix\<close>

lemma length_concat_const: "(\<forall>g \<in> set gs. length g = k) \<Longrightarrow> length (concat gs) = length gs * k"
  by (induction gs) auto

lemma class_scores_rows:
  assumes "0 < N"
  shows "class_scores N K sims =
     map (\<lambda>i. map (\<lambda>c. fmean (slice (c * K) ((c + 1) * K) (sims ! i))) [0..<N]) [0..<length sims]"
proof -
  let ?xs = "map (class_mean K sims) [0..<N]"
  have "transpose ?xs = map (\<lambda>i. map (\<lambda>j. ?xs ! j ! i) [0..<length ?xs]) [0..<length sims]"
    using assms by (intro transpose_rectangle) (auto simp: class_mean_def)
  then show ?thesis
    by (simp add: class_scores_def class_mean_def cong: map_cong)
qed

lemma class_scores_shape: "0 < N \<Longrightarrow> mat_ok (length sims) N (class_scores N K sims)"
  by (simp add: class_scores_rows mat_ok_def)

lemma set_entry_ok:
  assumes "mat_ok R N m" "i < R" "c < N"
  shows "\<exists>m'. set_entry m i c v = Inr m' \<and> mat_ok R N m' \<and>
           (\<forall>a<R. \<forall>k<N. m' ! a ! k = (if a = i \<and> k = c then v else m ! a ! k))"
  using assms by (auto simp: set_entry_def mat_ok_def nth_list_update)

lemma fill_sentences_ok:
  assumes "mat_ok R N m" "c < N" "c * Q + j + length rest \<le> R"
  shows "\<exists>m'. fill_sentences Q c j rest m = Inr m' \<and> mat_ok R N m' \<and>
           (\<forall>a<R. \<forall>k<N. m' ! a ! k =
              (if k = c \<and> c * Q + j \<le> a \<and> a < c * Q + j + length rest then Val 1 else m ! a ! k))"
  using assms
proof (induction rest arbitrary: j m)
  case Nil
  then show ?case by auto
next
  case (Cons s rest)
  from Cons.prems have lt: "c * Q + j < R" by simp
  from set_entry_ok[OF Cons.prems(1) lt Cons.prems(2), of "Val 1"]
  obtain m1 where m1: "set_entry m (c * Q + j) c (Val 1) = Inr m1" "mat_ok R N m1"
     "\<forall>a<R. \<forall>k<N. m1 ! a ! k = (if a = c * Q + j \<and> k = c then Val 1 else m ! a ! k)"
    by blast
  have "c * Q + Suc j + length rest \<le> R" using Cons.prems by simp
  from Cons.IH[OF m1(2) Cons.prems(2) this]
  obtain m2 where m2: "fill_sentences Q c (Suc j) rest m1 = Inr m2" "mat_ok R N m2"
     "\<forall>a<R. \<forall>k<N. m2 ! a ! k =
        (if k = c \<and> c * Q + Suc j \<le> a \<and> a < c * Q + Suc j + length rest then Val 1 else m1 ! a ! k)"
    by blast
  show ?case using m1 m2 by (auto)
qed

lemma fill_classes_ok:
  assumes "mat_ok R N m" "c + length groups \<le> N" "\<forall>g \<in> set groups. length g = Q"
    "(c + length groups) * Q \<le> R"
  shows "\<exists>m'. fill_classes Q c groups m = Inr m' \<and> mat_ok R N m' \<and>
           (\<forall>a<R. \<forall>k<N. m' ! a ! k =
              (if c \<le> k \<and> k < c + length groups \<and> k * Q \<le> a \<and> a < (k + 1) * Q
               then Val 1 else m ! a ! k))"
  using assms
proof (induction groups arbitrary: c m)
  case Nil
  then show ?case by auto
next
  case (Cons g groups)
  have cN: "c < N" using Cons.prems(2) by simp
  have lg: "length g = Q" using Cons.prems(3) by simp
  have "c * Q + Q \<le> (c + length (g # groups)) * Q" by (simp add: algebra_simps)
  with Cons.prems(4) have "c * Q + Q \<le> R" by linarith
  then have b: "c * Q + 0 + length g \<le> R" using lg by simp
  from fill_sentences_ok[OF Cons.prems(1) cN b]
  obtain m1 where m1: "fill_sentences Q c 0 g m = Inr m1" "mat_ok R N m1"
    "\<forall>a<R. \<forall>k<N. m1 ! a ! k =
        (if k = c \<and> c * Q + 0 \<le> a \<and> a < c * Q + 0 + length g then Val 1 else m ! a ! k)"
    by blast
  have p2: "Suc c + length groups \<le> N" using Cons.prems(2) by simp
  have p3: "\<forall>g \<in> set groups. length g = Q" using Cons.prems(3) by simp
  have p4: "(Suc c + length groups) * Q \<le> R" using Cons.prems(4) by simp
  from Cons.IH[OF m1(2) p2 p3 p4]
  obtain m2 where m2: "fill_classes Q (Suc c) groups m1 = Inr m2" "mat_ok R N m2"
    "\<forall>a<R. \<forall>k<N. m2 ! a ! k =
        (if Suc c \<le> k \<and> k < Suc c + length groups \<and> k * Q \<le> a \<and> a < (k + 1) * Q
         then Val 1 else m1 ! a ! k)"
    by blast
  have "\<forall>a<R. \<forall>k<N. m2 ! a ! k =
          (if c \<le> k \<and> k < c + length (g # groups) \<and> k * Q \<le> a \<and> a < (k + 1) * Q
           then Val 1 else m ! a ! k)"
  proof (intro allI impI)
    fix a k assume a: "a < R" and k: "k < N"
    show "m2 ! a ! k =
          (if c \<le> k \<and> k < c + length (g # groups) \<and> k * Q \<le> a \<and> a < (k + 1) * Q
           then Val 1 else m ! a ! k)"
      using m2(3)[rule_format, OF a k] m1(3)[rule_format, OF a k] lg
      by (cases "k = c") auto
  qed
  then show ?case using m1(1) m2(1,2) by simp
qed

lemma one_hot_index:
  assumes "0 < (Q::nat)" "a < N * Q" "k < N"
  shows "(k * Q \<le> a \<and> a < (k + 1) * Q) \<longleftrightarrow> k = a div Q"
proof
  assume h: "k * Q \<le> a \<and> a < (k + 1) * Q"
  have "a div Q = k"
  proof (rule div_nat_eqI)
    show "Q * k \<le> a" using h by (simp add: mult.commute)
    show "a < Q * Suc k" using h by (simp add: mult.commute)
  qed
  then show "k = a div Q" by simp
next
  assume "k = a div Q"
  then show "k * Q \<le> a \<and> a < (k + 1) * Q"
    using assms(1) by (simp add: dividend_less_div_times)
qed


lemma MatchingNet_init_metric:
  "MatchingNet_init m = Inr m' \<Longrightarrow> m' = m \<and> (m = ''euclidean'' \<or> m = ''cosine'')"
  by (auto simp: MatchingNet_init_def split: if_splits)

lemma similarity_ok:
  assumes "similarity_rows E" "m = ''euclidean'' \<or> m = ''cosine''"
  shows "\<exists>sims. similarity E m zq zs = Inr sims \<and> length sims = length zq"
  using assms by (auto simp: similarity_def similarity_rows_def)

lemma zeros_like_ok: "mat_ok R N m \<Longrightarrow> mat_ok R N (zeros_like m)"
  by (simp add: mat_ok_def zeros_like_def)

lemma zeros_like_nth: "mat_ok R N m \<Longrightarrow> a < R \<Longrightarrow> k < N \<Longrightarrow> zeros_like m ! a ! k = Val 0"
  by (simp add: mat_ok_def zeros_like_def)

lemma fill_zero_one_hot:
  assumes "mat_ok (N * Q) N d" "0 < Q" "length groups = N" "\<forall>g \<in> set groups. length g = Q"
  shows "fill_classes Q 0 groups (zeros_like d) = Inr (map (\<lambda>i. one_hot N (i div Q)) [0..<N * Q])"
proof -
  have z: "mat_ok (N * Q) N (zeros_like d)" using assms(1) by (rule zeros_like_ok)
  from fill_classes_ok[OF z, of 0 groups Q] assms
  obtain m' where m': "fill_classes Q 0 groups (zeros_like d) = Inr m'" "mat_ok (N * Q) N m'"
    "\<forall>a<N * Q. \<forall>k<N. m' ! a ! k =
        (if 0 \<le> k \<and> k < 0 + length groups \<and> k * Q \<le> a \<and> a < (k + 1) * Q
         then Val 1 else zeros_like d ! a ! k)"
    by auto
  have "m' = map (\<lambda>i. one_hot N (i div Q)) [0..<N * Q]"
  proof (rule nth_equalityI)
    show "length m' = length (map (\<lambda>i. one_hot N (i div Q)) [0..<N * Q])"
      using m'(2) by (simp add: mat_ok_def)
  next
    fix a assume "a < length m'"
    then have a: "a < N * Q" using m'(2) by (simp add: mat_ok_def)
    have "m' ! a = one_hot N (a div Q)"
    proof (rule nth_equalityI)
      show "length (m' ! a) = length (one_hot N (a div Q))"
        using m'(2) a by (simp add: mat_ok_def one_hot_def)
    next
      fix k assume "k < length (m' ! a)"
      then have k: "k < N" using m'(2) a by (simp add: mat_ok_def)
      have "m' ! a ! k = (if k * Q \<le> a \<and> a < (k + 1) * Q then Val 1 else Val 0)"
        using m'(3)[rule_format, OF a k] k assms(3) zeros_like_nth[OF assms(1) a k] by simp
      also have "\<dots> = (if k = a div Q then Val 1 else Val 0)"
        using one_hot_index[OF assms(2) a k] by simp
      finally show "m' ! a ! k = one_hot N (a div Q) ! k"
        using k by (simp add: one_hot_def)
    qed
    then show "m' ! a = map (\<lambda>i. one_hot N (i div Q)) [0..<N * Q] ! a"
      using a by simp
  qed
  with m'(1) show ?thesis by simp
qed

lemma loss_tensors_unfold:
  fixes E :: "('v, 'p, 'o, 'r) env" and w :: "('p, 'o, 'r) world"
  assumes ne: "xs smp \<noteq> []" and len: "length (xq smp) = length (xs smp)"
  defines "x \<equiv> concat (xs smp) @ concat (xq smp)"
  defines "fw \<equiv> forward E (params w) (training w) x (rng w)"
  defines "w' \<equiv> w\<lparr>rng := snd fw, enc_calls := enc_calls w @ [x]\<rparr>"
  defines "nk \<equiv> length (xs smp) * length (hd (xs smp))"
  shows "loss_tensors E m smp w =
     (case similarity E m (drop nk (fst fw)) (take nk (fst fw)) of
        Inl e \<Rightarrow> (Inl e, w')
      | Inr sims \<Rightarrow>
         (case fill_classes (length (hd (xq smp))) 0 (xq smp)
                 (zeros_like (class_scores (length (xs smp)) (length (hd (xs smp))) sims)) of
            Inl e \<Rightarrow> (Inl e, w')
          | Inr lab \<Rightarrow>
             (Inr \<lparr>x_flat = x, z_support = take nk (fst fw), z_query = drop nk (fst fw),
                   similarities = sims,
                   distances_from_query_to_classes =
                     class_scores (length (xs smp)) (length (hd (xs smp))) sims,
                   true_labels = lab\<rparr>, w')))"
proof -
  from ne obtain xs0 xsr where a: "xs smp = xs0 # xsr" by (cases "xs smp") auto
  from ne len obtain xq0 xqr where b: "xq smp = xq0 # xqr" by (cases "xq smp") auto
  show ?thesis
    unfolding loss_tensors_def x_def fw_def w'_def nk_def using len
    by (simp add: a b Let_def split_beta split: sum.split)
qed

lemma loss_tensors_well_formed:
  fixes E :: "('v, 'p, 'o, 'r) env" and w :: "('p, 'o, 'r) world"
  assumes wf: "well_formed N K Q smp" and enc: "encoder_ok E" and rows: "similarity_rows E"
    and met: "m = ''euclidean'' \<or> m = ''cosine''"
  defines "x \<equiv> concat (xs smp) @ concat (xq smp)"
  defines "fw \<equiv> forward E (params w) (training w) x (rng w)"
  shows "\<exists>sims. similarity E m (drop (N * K) (fst fw)) (take (N * K) (fst fw)) = Inr sims \<and>
           length sims = N * Q \<and>
           loss_tensors E m smp w =
             (Inr \<lparr>x_flat = x, z_support = take (N * K) (fst fw), z_query = drop (N * K) (fst fw),
                   similarities = sims,
                   distances_from_query_to_classes = class_scores N K sims,
                   true_labels = map (\<lambda>i. one_hot N (i div Q)) [0..<N * Q]\<rparr>,
              w\<lparr>rng := snd fw, enc_calls := enc_calls w @ [x]\<rparr>)"
proof -
  from wf obtain xs0 xsr where xs: "xs smp = xs0 # xsr"
    by (cases "xs smp") (auto simp: well_formed_def)
  from wf obtain xq0 xqr where xq: "xq smp = xq0 # xqr"
    by (cases "xq smp") (auto simp: well_formed_def)
  have K: "length xs0 = K" and Q: "length xq0 = Q" using wf xs xq by (auto simp: well_formed_def)
  have N: "length (xs smp) = N" "length (xq smp) = N" "0 < N" "0 < Q"
    using wf by (auto simp: well_formed_def)
  have "length (concat (xs smp)) = N * K" "length (concat (xq smp)) = N * Q"
    using wf length_concat_const[of "xs smp" K] length_concat_const[of "xq smp" Q]
    by (simp_all add: well_formed_def)
  then have lx: "length x = N * K + N * Q"
    by (simp add: x_def)
  have lz: "length (fst fw) = N * K + N * Q"
    using enc lx by (simp add: fw_def encoder_ok_def)
  from similarity_ok[OF rows met, of "drop (N * K) (fst fw)" "take (N * K) (fst fw)"]
  obtain sims where sims: "similarity E m (drop (N * K) (fst fw)) (take (N * K) (fst fw)) = Inr sims"
    "length sims = N * Q" using lz by auto
  have d: "mat_ok (N * Q) N (class_scores N K sims)"
    using class_scores_shape[OF N(3), of sims K] sims(2) by simp
  have fill: "fill_classes Q 0 (xq smp) (zeros_like (class_scores N K sims)) =
      Inr (map (\<lambda>i. one_hot N (i div Q)) [0..<N * Q])"
    using fill_zero_one_hot[OF d N(4) N(2)] wf by (simp add: well_formed_def)
  have "loss_tensors E m smp w =
             (Inr \<lparr>x_flat = x, z_support = take (N * K) (fst fw), z_query = drop (N * K) (fst fw),
                   similarities = sims,
                   distances_from_query_to_classes = class_scores N K sims,
                   true_labels = map (\<lambda>i. one_hot N (i div Q)) [0..<N * Q]\<rparr>,
              w\<lparr>rng := snd fw, enc_calls := enc_calls w @ [x]\<rparr>)"
  proof -
    have ne: "xs smp \<noteq> []" using xs by simp
    have len: "length (xq smp) = length (xs smp)" using N by simp
    have hK: "length (hd (xs smp)) = K" using xs K by simp
    have hQ: "length (hd (xq smp)) = Q" using xq Q by simp
    show ?thesis
      unfolding loss_tensors_unfold[OF ne len] hK hQ N(1) x_def[symmetric] fw_def[symmetric]
      using sims(1) fill by simp
  qed
  with sims show ?thesis by blast
qed

lemma count_one_hot: "count_list (one_hot N c) (Val 1) = (if c < N then 1 else 0)"
  by (induction N) (auto simp: one_hot_def)

lemma one_hot_nth: "k < N \<Longrightarrow> one_hot N c ! k = (if k = c then Val 1 else Val 0)"
  by (simp add: one_hot_def)

lemma length_one_hot: "length (one_hot N c) = N"
  by (simp add: one_hot_def)

lemma concat_nth_uniform:
  "(\<forall>g \<in> set gs. length g = k) \<Longrightarrow> c < length gs \<Longrightarrow> j < k \<Longrightarrow> concat gs ! (c * k + j) = gs ! c ! j"
proof (induction gs arbitrary: c)
  case Nil
  then show ?case by simp
next
  case (Cons g gs)
  show ?case
  proof (cases c)
    case 0
    then show ?thesis using Cons.prems by (simp add: nth_append)
  next
    case (Suc c')
    have "concat (g # gs) ! (c * k + j) = concat gs ! (c' * k + j)"
      using Cons.prems Suc by (simp add: nth_append)
    then show ?thesis using Cons.IH[of c'] Cons.prems Suc by simp
  qed
qed

lemma demo_encoder_ok: "encoder_ok demo_env"
  by (simp add: encoder_ok_def demo_env_def demo_forward_def)

lemma demo_similarity_rows: "similarity_rows demo_env"
  by (simp add: similarity_rows_def demo_env_def demo_euclidean_dist_def demo_cosine_similarity_def)

lemma div_less_classes: "0 < (Q::nat) \<Longrightarrow> i < N * Q \<Longrightarrow> i div Q < N"
  by (simp add: less_mult_imp_div_less)

section \<open>Predictions and accuracy\<close>

lemma argmax_scan_bound: "bi < i \<Longrightarrow> argmax_scan bi bv i vs < i + length vs"
proof (induction vs arbitrary: bi bv i)
  case Nil
  then show ?case by simp
next
  case (Cons v vs)
  have a: "argmax_scan i v (Suc i) vs < Suc i + length vs" by (rule Cons.IH) simp
  have b: "argmax_scan bi bv (Suc i) vs < Suc i + length vs" by (rule Cons.IH) (use Cons.prems in simp)
  show ?case using a b by simp
qed

lemma argmax_nonempty: "row \<noteq> [] \<Longrightarrow> \<exists>k. argmax row = Inr k \<and> k < length row"
proof (cases row)
  case Nil
  then show "row \<noteq> [] \<Longrightarrow> ?thesis" by simp
next
  case (Cons v vs)
  have "argmax_scan 0 v 1 vs < 1 + length vs" by (rule argmax_scan_bound) simp
  then show ?thesis using Cons by (simp add: argmax_def)
qed

lemma collect_all_ok:
  "(\<forall>r \<in> set rs. \<exists>a. r = Inr a \<and> P a) \<Longrightarrow>
     \<exists>as. collect rs = Inr as \<and> length as = length rs \<and> (\<forall>a \<in> set as. P a)"
proof (induction rs)
  case Nil
  then show ?case by simp
next
  case (Cons r rs)
  then obtain a where a: "r = Inr a" "P a" by auto
  from Cons obtain as where as: "collect rs = Inr as" "length as = length rs" "\<forall>a \<in> set as. P a"
    by auto
  show ?case using a as by simp
qed

lemma argmax_rows_ok:
  assumes "mat_ok R N mt" "0 < N"
  shows "\<exists>ks. argmax_rows mt = Inr ks \<and> length ks = R \<and> (\<forall>k \<in> set ks. k < N)"
proof -
  have "\<forall>r \<in> set (map argmax mt). \<exists>a. r = Inr a \<and> a < N"
  proof
    fix r assume "r \<in> set (map argmax mt)"
    then obtain i where i: "i < length mt" "r = argmax (mt ! i)"
      by (auto simp: in_set_conv_nth)
    then have "length (mt ! i) = N" using assms(1) by (simp add: mat_ok_def)
    then have "mt ! i \<noteq> []" "length (mt ! i) = N" using assms(2) by auto
    then show "\<exists>a. r = Inr a \<and> a < N" using argmax_nonempty[of "mt ! i"] i(2) by auto
  qed
  from collect_all_ok[OF this] show ?thesis
    using assms(1) by (auto simp: argmax_rows_def mat_ok_def)
qed

lemma fsum_Val: "foldl fadd (Val s) (map Val rs) = Val (s + sum_list rs)"
  by (induction rs arbitrary: s) (simp_all add: add.assoc)

lemma hits_as_Val:
  "hits tgt pred = map Val (map (\<lambda>(t, p). if t = p then 1 else 0) (zip tgt pred))"
  by (simp add: hits_def split_def)

lemma sum_list_01:
  "(\<forall>r \<in> set rs. 0 \<le> r \<and> r \<le> (1::real)) \<Longrightarrow> 0 \<le> sum_list rs \<and> sum_list rs \<le> real (length rs)"
  by (induction rs) auto

lemma fmean_hits_range:
  assumes "length tgt = n" "length pred = n" "0 < n"
  shows "\<exists>a. fmean (hits tgt pred) = Val a \<and> 0 \<le> a \<and> a \<le> 1"
proof -
  let ?rs = "map (\<lambda>(t, p). if t = p then 1 else (0::real)) (zip tgt pred)"
  have len: "length ?rs = n" using assms by simp
  have "\<forall>r \<in> set ?rs. 0 \<le> r \<and> r \<le> 1" by auto
  from sum_list_01[OF this] len have b: "0 \<le> sum_list ?rs" "sum_list ?rs \<le> real n" by auto
  have ne: "hits tgt pred \<noteq> []" using assms by (auto simp: hits_def)
  have "fmean (hits tgt pred) = Val (sum_list ?rs * (1 / real n))"
    using ne len by (simp add: fmean_def fsum_def hits_as_Val fsum_Val del: map_map)
  moreover have "0 \<le> sum_list ?rs * (1 / real n)" using b assms(3) by simp
  moreover have "sum_list ?rs * (1 / real n) \<le> 1" using b assms(3) by (simp add: field_simps)
  ultimately show ?thesis by blast
qed

lemma fmean_hits_equal:
  assumes "0 < length ks"
  shows "fmean (hits ks ks) = Val 1"
proof -
  have h: "hits ks ks = map Val (replicate (length ks) 1)"
    by (induction ks) (simp_all add: hits_def)
  have s: "sum_list (replicate (length ks) (1::real)) = real (length ks)"
    by (simp add: sum_list_replicate)
  have "fsum (hits ks ks) = Val (real (length ks))"
    unfolding fsum_def h fsum_Val s by simp
  then show ?thesis using assms
    by (simp add: fmean_def hits_def)
qed

lemma all_zero_lists_equal:
  "length ks = n \<Longrightarrow> length js = n \<Longrightarrow> (\<forall>k \<in> set ks. k < (1::nat)) \<Longrightarrow> (\<forall>k \<in> set js. k < 1) \<Longrightarrow> ks = js"
  by (rule nth_equalityI) (auto simp: all_set_conv_all_nth)

lemma loss_well_formed:
  fixes E :: "('v, 'p, 'o, 'r) env" and w :: "('p, 'o, 'r) world"
  assumes "well_formed N K Q smp" and "encoder_ok E" and "similarity_rows E"
    and "m = ''euclidean'' \<or> m = ''cosine''"
  obtains T w' tgt pred where
    "loss_tensors E m smp w = (Inr T, w')"
    "length tgt = N * Q" "length pred = N * Q"
    "\<forall>k \<in> set tgt. k < N" "\<forall>k \<in> set pred. k < N"
    "loss E m smp w =
       (Inr \<lparr>loss_val = cross_entropy E (distances_from_query_to_classes T) tgt,
             acc_val = fmean (hits tgt pred), y_hat = pred\<rparr>, w')"
proof -
  from loss_tensors_well_formed[OF assms, of w]
  obtain T w' sims where lt: "loss_tensors E m smp w = (Inr T, w')"
    and s: "length sims = N * Q"
    and d: "distances_from_query_to_classes T = class_scores N K sims"
    and l: "true_labels T = map (\<lambda>i. one_hot N (i div Q)) [0..<N * Q]"
    by fastforce
  have N: "0 < N" using assms(1) by (simp add: well_formed_def)
  have "mat_ok (N * Q) N (distances_from_query_to_classes T)"
    using class_scores_shape[OF N, of sims K] s d by simp
  from argmax_rows_ok[OF this N]
  obtain pred where pred: "argmax_rows (distances_from_query_to_classes T) = Inr pred"
    "length pred = N * Q" "\<forall>k \<in> set pred. k < N" by blast
  have "mat_ok (N * Q) N (true_labels T)"
    by (simp add: l mat_ok_def one_hot_def)
  from argmax_rows_ok[OF this N]
  obtain tgt where tgt: "argmax_rows (true_labels T) = Inr tgt"
    "length tgt = N * Q" "\<forall>k \<in> set tgt. k < N" by blast
  have "loss E m smp w =
             (Inr \<lparr>loss_val = cross_entropy E (distances_from_query_to_classes T) tgt,
                   acc_val = fmean (hits tgt pred), y_hat = pred\<rparr>, w')"
    by (simp add: loss_def lt tgt(1) pred(1))
  then show ?thesis
    using lt tgt(2,3) pred(2,3) by (intro that[of T w' tgt pred])
qed

section \<open>Claims about \<open>MatchingNet.loss\<close>\<close>

text \<open>
  Claim C1. For a well-formed episode with \<open>N\<close> classes, \<open>K\<close> support and \<open>Q\<close> query
  items per class, \<open>loss\<close> builds its tensors without an exception; the matrix of the
  per-class mean similarities has \<open>N * Q\<close> rows of \<open>N\<close> columns, its entry for row \<open>i\<close>
  and class \<open>c\<close> being the mean over the \<open>K\<close> support columns of class \<open>c\<close>; the label
  matrix has the same shape, every row holds exactly one 1, in column \<open>i div Q\<close>, and 0
  elsewhere.
\<close>

theorem loss_label_matrix_one_hot:
  fixes E :: "('v, 'p, 'o, 'r) env" and w :: "('p, 'o, 'r) world"
  assumes "well_formed N K Q smp" and "encoder_ok E" and "similarity_rows E"
    and "m = ''euclidean'' \<or> m = ''cosine''"
  shows "\<exists>T w'. loss_tensors E m smp w = (Inr T, w') \<and>
           mat_ok (N * Q) N (distances_from_query_to_classes T) \<and>
           (\<forall>i<N * Q. \<forall>c<N. distances_from_query_to_classes T ! i ! c =
                fmean (slice (c * K) ((c + 1) * K) (similarities T ! i))) \<and>
           mat_ok (N * Q) N (true_labels T) \<and>
           (\<forall>i<N * Q. count_list (true_labels T ! i) (Val 1) = 1 \<and>
                (\<forall>c<N. true_labels T ! i ! c = (if c = i div Q then Val 1 else Val 0)))"
proof -
  from loss_tensors_well_formed[OF assms, of w]
  obtain sims where s: "length sims = N * Q"
    and lt: "loss_tensors E m smp w =
      (Inr \<lparr>x_flat = concat (xs smp) @ concat (xq smp),
            z_support = take (N * K) (fst (forward E (params w) (training w)
                           (concat (xs smp) @ concat (xq smp)) (rng w))),
            z_query = drop (N * K) (fst (forward E (params w) (training w)
                           (concat (xs smp) @ concat (xq smp)) (rng w))),
            similarities = sims,
            distances_from_query_to_classes = class_scores N K sims,
            true_labels = map (\<lambda>i. one_hot N (i div Q)) [0..<N * Q]\<rparr>,
       w\<lparr>rng := snd (forward E (params w) (training w)
                         (concat (xs smp) @ concat (xq smp)) (rng w)),
          enc_calls := enc_calls w @ [concat (xs smp) @ concat (xq smp)]\<rparr>)"
    by blast
  have N: "0 < N" and Q: "0 < Q" using assms(1) by (auto simp: well_formed_def)
  have a: "mat_ok (N * Q) N (class_scores N K sims)"
    using class_scores_shape[OF N, of sims K] s by simp
  have b: "\<forall>i<N * Q. \<forall>c<N. class_scores N K sims ! i ! c =
                fmean (slice (c * K) ((c + 1) * K) (sims ! i))"
    using s by (simp add: class_scores_rows[OF N])
  have c: "mat_ok (N * Q) N (map (\<lambda>i. one_hot N (i div Q)) [0..<N * Q])"
    by (simp add: mat_ok_def length_one_hot)
  have d: "\<forall>i<N * Q. count_list (map (\<lambda>i. one_hot N (i div Q)) [0..<N * Q] ! i) (Val 1) = 1 \<and>
      (\<forall>c<N. map (\<lambda>i. one_hot N (i div Q)) [0..<N * Q] ! i ! c =
           (if c = i div Q then Val 1 else Val 0))"
    using div_less_classes[OF Q] by (simp add: count_one_hot one_hot_nth)
  show ?thesis
    unfolding lt using a b c d by simp
qed

text \<open>The same at a two-class episode with one support and one query item per class.\<close>

theorem loss_label_matrix_one_hot_witness:
  "well_formed 2 1 1 \<lparr>xs = [[''x''], [''yyyyy'']], xq = [[''xx''], [''yyyy'']]\<rparr> \<and>
   encoder_ok demo_env \<and> similarity_rows demo_env \<and>
   (\<exists>T w'. loss_tensors demo_env ''euclidean''
              \<lparr>xs = [[''x''], [''yyyyy'']], xq = [[''xx''], [''yyyy'']]\<rparr> demo_world = (Inr T, w') \<and>
      mat_ok (2 * 1) 2 (distances_from_query_to_classes T) \<and>
      (\<forall>i<2 * 1. \<forall>c<2. distances_from_query_to_classes T ! i ! c =
                fmean (slice (c * 1) ((c + 1) * 1) (similarities T ! i))) \<and>
      mat_ok (2 * 1) 2 (true_labels T) \<and>
      (\<forall>i<2 * 1. count_list (true_labels T ! i) (Val 1) = 1 \<and>
           (\<forall>c<2. true_labels T ! i ! c = (if c = i div 1 then Val 1 else Val 0))))"
proof -
  have wf: "well_formed 2 1 1 \<lparr>xs = [[''x''], [''yyyyy'']], xq = [[''xx''], [''yyyy'']]\<rparr>"
    by (simp add: well_formed_def)
  show ?thesis
    by (intro conjI wf demo_encoder_ok demo_similarity_rows
        loss_label_matrix_one_hot[OF wf demo_encoder_ok demo_similarity_rows disjI1[OF refl]])
qed

text \<open>
  Claim C2. For a well-formed episode \<open>loss\<close> flattens the support groups, class after
  class and in the order within each class, followed by the query groups in the same way,
  so that support item \<open>j\<close> of class \<open>c\<close> stands at position \<open>c * K + j\<close> and query item
  \<open>j\<close> of class \<open>c\<close> at position \<open>N * K + c * Q + j\<close>; it calls the encoder once, on that
  sequence; the support embeddings are the first \<open>N * K\<close> rows of what the encoder
  returns and the query embeddings the remaining \<open>N * Q\<close> rows.
\<close>

theorem loss_flattens_and_splits:
  fixes E :: "('v, 'p, 'o, 'r) env" and w :: "('p, 'o, 'r) world"
  assumes "well_formed N K Q smp" and "encoder_ok E" and "similarity_rows E"
    and "m = ''euclidean'' \<or> m = ''cosine''"
  shows "\<exists>T w' z r'. loss_tensors E m smp w = (Inr T, w') \<and>
           x_flat T = concat (xs smp) @ concat (xq smp) \<and>
           (\<forall>c<N. \<forall>j<K. x_flat T ! (c * K + j) = xs smp ! c ! j) \<and>
           (\<forall>c<N. \<forall>j<Q. x_flat T ! (N * K + c * Q + j) = xq smp ! c ! j) \<and>
           forward E (params w) (training w) (x_flat T) (rng w) = (z, r') \<and>
           enc_calls w' = enc_calls w @ [x_flat T] \<and>
           z_support T = take (N * K) z \<and> z_query T = drop (N * K) z \<and>
           length (z_support T) = N * K \<and> length (z_query T) = N * Q"
proof -
  let ?x = "concat (xs smp) @ concat (xq smp)"
  let ?fw = "forward E (params w) (training w) ?x (rng w)"
  from loss_tensors_well_formed[OF assms, of w]
  obtain sims where lt: "loss_tensors E m smp w =
      (Inr \<lparr>x_flat = ?x, z_support = take (N * K) (fst ?fw), z_query = drop (N * K) (fst ?fw),
            similarities = sims,
            distances_from_query_to_classes = class_scores N K sims,
            true_labels = map (\<lambda>i. one_hot N (i div Q)) [0..<N * Q]\<rparr>,
       w\<lparr>rng := snd ?fw, enc_calls := enc_calls w @ [?x]\<rparr>)"
    by blast
  have wf: "length (xs smp) = N" "length (xq smp) = N"
    "\<forall>g \<in> set (xs smp). length g = K" "\<forall>g \<in> set (xq smp). length g = Q"
    using assms(1) by (auto simp: well_formed_def)
  have ls: "length (concat (xs smp)) = N * K" and lq: "length (concat (xq smp)) = N * Q"
    using length_concat_const[OF wf(3)] length_concat_const[OF wf(4)] wf(1,2) by simp_all
  have lz: "length (fst ?fw) = N * K + N * Q"
    using assms(2) ls lq by (simp add: encoder_ok_def)
  have a: "\<forall>c<N. \<forall>j<K. ?x ! (c * K + j) = xs smp ! c ! j"
  proof (intro allI impI)
    fix c j assume c: "c < N" and j: "j < K"
    have "c * K + j < Suc c * K" using j by simp
    also have "\<dots> \<le> N * K" using c by (intro mult_le_mono1) simp
    finally have "c * K + j < length (concat (xs smp))" using ls by simp
    then show "?x ! (c * K + j) = xs smp ! c ! j"
      using concat_nth_uniform[OF wf(3), of c j] c j wf(1) by (simp add: nth_append)
  qed
  have b: "\<forall>c<N. \<forall>j<Q. ?x ! (N * K + c * Q + j) = xq smp ! c ! j"
  proof (intro allI impI)
    fix c j assume c: "c < N" and j: "j < Q"
    have "?x ! (N * K + c * Q + j) = concat (xq smp) ! (c * Q + j)"
      using ls by (simp add: nth_append add.assoc)
    then show "?x ! (N * K + c * Q + j) = xq smp ! c ! j"
      using concat_nth_uniform[OF wf(4), of c j] c j wf(2) by simp
  qed
  show ?thesis
    unfolding lt using a b lz by (simp add: prod_eq_iff)
qed

text \<open>The same at a two-class episode, with the flattened sequence written out.\<close>

theorem loss_flattens_and_splits_witness:
  "well_formed 2 1 1 \<lparr>xs = [[''x''], [''yyyyy'']], xq = [[''xx''], [''yyyy'']]\<rparr> \<and>
   encoder_ok demo_env \<and> similarity_rows demo_env \<and>
   (\<exists>T w' z r'. loss_tensors demo_env ''cosine''
              \<lparr>xs = [[''x''], [''yyyyy'']], xq = [[''xx''], [''yyyy'']]\<rparr> demo_world = (Inr T, w') \<and>
      x_flat T = [''x'', ''yyyyy'', ''xx'', ''yyyy''] \<and>
      forward demo_env (params demo_world) (training demo_world) (x_flat T) (rng demo_world) = (z, r') \<and>
      enc_calls w' = enc_calls demo_world @ [x_flat T] \<and>
      z_support T = take 2 z \<and> z_query T = drop 2 z \<and>
      length (z_support T) = 2 \<and> length (z_query T) = 2)"
proof -
  have wf: "well_formed 2 1 1 \<lparr>xs = [[''x''], [''yyyyy'']], xq = [[''xx''], [''yyyy'']]\<rparr>"
    by (simp add: well_formed_def)
  from loss_flattens_and_splits[OF wf demo_encoder_ok demo_similarity_rows disjI2[OF refl], of demo_world]
  obtain T w' z r' where "loss_tensors demo_env ''cosine''
              \<lparr>xs = [[''x''], [''yyyyy'']], xq = [[''xx''], [''yyyy'']]\<rparr> demo_world = (Inr T, w')"
      "x_flat T = [''x'', ''yyyyy'', ''xx'', ''yyyy'']"
      "forward demo_env (params demo_world) (training demo_world) (x_flat T) (rng demo_world) = (z, r')"
      "enc_calls w' = enc_calls demo_world @ [x_flat T]"
      "z_support T = take 2 z" "z_query T = drop 2 z"
      "length (z_support T) = 2" "length (z_query T) = 2"
    by auto
  then show ?thesis using wf demo_encoder_ok demo_similarity_rows by blast
qed

text \<open>
  Claim C8. For a well-formed episode \<open>loss\<close> returns an accuracy that is a number
  between 0 and 1, and the accuracy is 1 when the episode has a single class.
\<close>

theorem loss_accuracy_range:
  fixes E :: "('v, 'p, 'o, 'r) env" and w :: "('p, 'o, 'r) world"
  assumes "well_formed N K Q smp" and "encoder_ok E" and "similarity_rows E"
    and "m = ''euclidean'' \<or> m = ''cosine''"
  shows "\<exists>ld w' a. loss E m smp w = (Inr ld, w') \<and> acc_val ld = Val a \<and>
           0 \<le> a \<and> a \<le> 1 \<and> (N = 1 \<longrightarrow> a = 1)"
proof (rule loss_well_formed[OF assms, of w])
  fix T w' tgt pred
  assume len: "length tgt = N * Q" "length pred = N * Q"
    and bnd: "\<forall>k \<in> set tgt. k < N" "\<forall>k \<in> set pred. k < N"
    and ls: "loss E m smp w =
             (Inr \<lparr>loss_val = cross_entropy E (distances_from_query_to_classes T) tgt,
                   acc_val = fmean (hits tgt pred), y_hat = pred\<rparr>, w')"
  have pos: "0 < N * Q" using assms(1) by (simp add: well_formed_def)
  from fmean_hits_range[OF len pos]
  obtain a where a: "fmean (hits tgt pred) = Val a" "0 \<le> a" "a \<le> 1" by blast
  have one: "N = 1 \<longrightarrow> a = 1"
  proof
    assume n1: "N = 1"
    have t: "\<forall>k \<in> set tgt. k < 1" and p: "\<forall>k \<in> set pred. k < 1"
      using bnd n1 by simp_all
    have "tgt = pred" by (rule all_zero_lists_equal[OF len t p])
    moreover have "0 < length pred" using len pos by simp
    ultimately have "fmean (hits tgt pred) = Val 1"
      using fmean_hits_equal[of pred] by simp
    with a(1) show "a = 1" by simp
  qed
  let ?ld = "\<lparr>loss_val = cross_entropy E (distances_from_query_to_classes T) tgt,
                   acc_val = fmean (hits tgt pred), y_hat = pred\<rparr>"
  have "loss E m smp w = (Inr ?ld, w') \<and> acc_val ?ld = Val a \<and> 0 \<le> a \<and> a \<le> 1 \<and> (N = 1 \<longrightarrow> a = 1)"
    using ls a one by simp
  then show ?thesis by blast
qed

text \<open>The same at an episode with one class, two support and three query items.\<close>

theorem loss_accuracy_range_witness:
  "well_formed 1 2 3 \<lparr>xs = [[''x'', ''yy'']], xq = [[''a'', ''bb'', ''ccc'']]\<rparr> \<and>
   encoder_ok demo_env \<and> similarity_rows demo_env \<and>
   (\<exists>ld w' a. loss demo_env ''cosine'' \<lparr>xs = [[''x'', ''yy'']], xq = [[''a'', ''bb'', ''ccc'']]\<rparr>
                  demo_world = (Inr ld, w') \<and> acc_val ld = Val a \<and>
           0 \<le> a \<and> a \<le> 1 \<and> ((1::nat) = 1 \<longrightarrow> a = 1))"
proof -
  have wf: "well_formed 1 2 3 \<lparr>xs = [[''x'', ''yy'']], xq = [[''a'', ''bb'', ''ccc'']]\<rparr>"
    by (simp add: well_formed_def)
  show ?thesis
    by (intro conjI wf demo_encoder_ok demo_similarity_rows
        loss_accuracy_range[OF wf demo_encoder_ok demo_similarity_rows disjI2[OF refl]])
qed

lemma loss_tensors_InrD:
  fixes E :: "('v, 'p, 'o, 'r) env" and w :: "('p, 'o, 'r) world"
  assumes "loss_tensors E m smp w = (Inr T, w')"
  shows "xs smp \<noteq> [] \<and> length (xq smp) = length (xs smp)"
  using assms by (auto simp: loss_tensors_def Let_def split: if_splits list.splits)

lemma dot_sum:
  assumes "length a = d" "length b = d"
  shows "dot a b = (\<Sum>k<d. a ! k * b ! k)"
proof -
  have "sum_list (map (\<lambda>(u, v). u * v) (zip a b)) =
        (\<Sum>i = 0..<length (map (\<lambda>(u, v). u * v) (zip a b)). map (\<lambda>(u, v). u * v) (zip a b) ! i)"
    by (rule sum_list_sum_nth)
  also have "\<dots> = (\<Sum>i = 0..<d. a ! i * b ! i)"
    using assms by (intro sum.cong) simp_all
  finally show ?thesis by (simp add: dot_def atLeast0LessThan)
qed

lemma vec_norm_diff:
  assumes "length a = d" "length b = d"
  shows "vec_norm (map (\<lambda>(u, v). u - v) (zip a b)) = sqrt (\<Sum>k<d. (a ! k - b ! k)\<^sup>2)"
proof -
  let ?c = "map (\<lambda>(u, v). u - v) (zip a b)"
  have l: "length ?c = d" using assms by simp
  have "dot ?c ?c = (\<Sum>k<d. ?c ! k * ?c ! k)" by (rule dot_sum[OF l l])
  also have "\<dots> = (\<Sum>k<d. (a ! k - b ! k)\<^sup>2)"
    using assms by (intro sum.cong) (simp_all add: power2_eq_square)
  finally show ?thesis by (simp add: vec_norm_def)
qed

lemma vec_norm_sum:
  assumes "length a = d"
  shows "vec_norm a = sqrt (\<Sum>k<d. (a ! k)\<^sup>2)"
  using dot_sum[OF assms assms] by (simp add: vec_norm_def power2_eq_square)

lemma demo_vec_encoder_ok: "encoder_ok demo_vec_env"
  by (simp add: encoder_ok_def demo_vec_env_def demo_vec_forward_def)

lemma demo_vec_similarity_rows: "similarity_rows demo_vec_env"
  by (simp add: similarity_rows_def demo_vec_env_def spec_euclidean_dist_def
      spec_cosine_similarity_def)

text \<open>
  Claim C3. With the two helpers as the specification has them, on query and support
  embeddings of one dimension \<open>d\<close>: in \<open>euclidean\<close> mode the similarity of query \<open>i\<close> and
  support \<open>j\<close> is the negative of their Euclidean distance, the square root of the sum of
  the squared coordinate differences; in \<open>cosine\<close> mode it is 5 times their cosine
  similarity, the dot product over the product of the norms, for rows that are not the
  zero vector; both matrices have one row per query and one column per support item.
  And the matrix \<open>loss\<close> goes on with is this one, computed on the query and support
  embeddings of the episode in the mode of the network.
\<close>

theorem loss_similarity_modes:
  fixes E :: "(real list, 'p, 'o, 'r) env" and w :: "('p, 'o, 'r) world"
  assumes "euclidean_dist E = spec_euclidean_dist"
    and "cosine_similarity E = spec_cosine_similarity"
    and "\<forall>q \<in> set zq. length q = d" and "\<forall>s \<in> set zs. length s = d"
  shows "\<exists>Me Mc. similarity E ''euclidean'' zq zs = Inr Me \<and>
           similarity E ''cosine'' zq zs = Inr Mc \<and>
           mat_ok (length zq) (length zs) Me \<and> mat_ok (length zq) (length zs) Mc \<and>
           (\<forall>i<length zq. \<forall>j<length zs.
              Me ! i ! j = Val (- sqrt (\<Sum>k<d. (zq ! i ! k - zs ! j ! k)\<^sup>2)) \<and>
              ((\<Sum>k<d. (zq ! i ! k)\<^sup>2) \<noteq> 0 \<and> (\<Sum>k<d. (zs ! j ! k)\<^sup>2) \<noteq> 0 \<longrightarrow>
                 Mc ! i ! j =
                   Val (5 * ((\<Sum>k<d. zq ! i ! k * zs ! j ! k) /
                        (sqrt (\<Sum>k<d. (zq ! i ! k)\<^sup>2) * sqrt (\<Sum>k<d. (zs ! j ! k)\<^sup>2)))))) \<and>
           (loss_tensors E m smp w = (Inr T, w') \<longrightarrow>
              similarity E m (z_query T) (z_support T) = Inr (similarities T))"
proof -
  let ?Me = "map (map fneg) (spec_euclidean_dist zq zs)"
  let ?Mc = "map (map (\<lambda>v. fmul v (Val 5))) (spec_cosine_similarity zq zs)"
  have e: "similarity E ''euclidean'' zq zs = Inr ?Me"
    by (simp add: similarity_def assms(1))
  have c: "similarity E ''cosine'' zq zs = Inr ?Mc"
    by (simp add: similarity_def assms(2))
  have se: "mat_ok (length zq) (length zs) ?Me"
    by (simp add: mat_ok_def spec_euclidean_dist_def)
  have sc: "mat_ok (length zq) (length zs) ?Mc"
    by (simp add: mat_ok_def spec_cosine_similarity_def)
  have ent: "\<forall>i<length zq. \<forall>j<length zs.
              ?Me ! i ! j = Val (- sqrt (\<Sum>k<d. (zq ! i ! k - zs ! j ! k)\<^sup>2)) \<and>
              ((\<Sum>k<d. (zq ! i ! k)\<^sup>2) \<noteq> 0 \<and> (\<Sum>k<d. (zs ! j ! k)\<^sup>2) \<noteq> 0 \<longrightarrow>
                 ?Mc ! i ! j =
                   Val (5 * ((\<Sum>k<d. zq ! i ! k * zs ! j ! k) /
                        (sqrt (\<Sum>k<d. (zq ! i ! k)\<^sup>2) * sqrt (\<Sum>k<d. (zs ! j ! k)\<^sup>2)))))"
  proof (intro allI impI)
    fix i j assume i: "i < length zq" and j: "j < length zs"
    have lq: "length (zq ! i) = d" and ls: "length (zs ! j) = d"
      using assms(3,4) i j by simp_all
    have a: "?Me ! i ! j = Val (- sqrt (\<Sum>k<d. (zq ! i ! k - zs ! j ! k)\<^sup>2))"
      using i j by (simp add: spec_euclidean_dist_def vec_norm_diff[OF lq ls])
    have b: "?Mc ! i ! j =
                   Val (5 * ((\<Sum>k<d. zq ! i ! k * zs ! j ! k) /
                        (sqrt (\<Sum>k<d. (zq ! i ! k)\<^sup>2) * sqrt (\<Sum>k<d. (zs ! j ! k)\<^sup>2))))"
      if "(\<Sum>k<d. (zq ! i ! k)\<^sup>2) \<noteq> 0 \<and> (\<Sum>k<d. (zs ! j ! k)\<^sup>2) \<noteq> 0"
      using i j that
      by (simp add: spec_cosine_similarity_def vec_norm_sum[OF lq] vec_norm_sum[OF ls]
          dot_sum[OF lq ls])
    show "?Me ! i ! j = Val (- sqrt (\<Sum>k<d. (zq ! i ! k - zs ! j ! k)\<^sup>2)) \<and>
              ((\<Sum>k<d. (zq ! i ! k)\<^sup>2) \<noteq> 0 \<and> (\<Sum>k<d. (zs ! j ! k)\<^sup>2) \<noteq> 0 \<longrightarrow>
                 ?Mc ! i ! j =
                   Val (5 * ((\<Sum>k<d. zq ! i ! k * zs ! j ! k) /
                        (sqrt (\<Sum>k<d. (zq ! i ! k)\<^sup>2) * sqrt (\<Sum>k<d. (zs ! j ! k)\<^sup>2)))))"
      using a b by blast
  qed
  have lt: "loss_tensors E m smp w = (Inr T, w') \<longrightarrow>
              similarity E m (z_query T) (z_support T) = Inr (similarities T)"
  proof
    assume a: "loss_tensors E m smp w = (Inr T, w')"
    from loss_tensors_InrD[OF a] have ne: "xs smp \<noteq> []"
      and len: "length (xq smp) = length (xs smp)" by simp_all
    show "similarity E m (z_query T) (z_support T) = Inr (similarities T)"
      using a unfolding loss_tensors_unfold[OF ne len]
      by (auto split: sum.splits)
  qed
  show ?thesis
    by (intro exI[of _ ?Me] exI[of _ ?Mc] conjI e c se sc ent lt)
qed

text \<open>
  The same on the specification's example, the unit vectors of the plane as queries and
  as supports: distances 0 and \<open>sqrt 2\<close>, similarities 0 and \<open>- sqrt 2\<close>.
\<close>

theorem loss_similarity_modes_witness:
  "euclidean_dist demo_vec_env = spec_euclidean_dist \<and>
   cosine_similarity demo_vec_env = spec_cosine_similarity \<and>
   length [1, 0 :: real] = 2 \<and> length [0, 1 :: real] = 2 \<and>
   (\<exists>Me Mc. similarity demo_vec_env ''euclidean'' [[1, 0], [0, 1]] [[1, 0], [0, 1]] = Inr Me \<and>
      similarity demo_vec_env ''cosine'' [[1, 0], [0, 1]] [[1, 0], [0, 1]] = Inr Mc \<and>
      Me ! 0 ! 0 = Val 0 \<and> Me ! 0 ! 1 = Val (- sqrt 2) \<and>
      Me ! 1 ! 0 = Val (- sqrt 2) \<and> Me ! 1 ! 1 = Val 0 \<and>
      Mc ! 0 ! 0 = Val 5 \<and> Mc ! 0 ! 1 = Val 0) \<and>
   (\<exists>T w'. loss_tensors demo_vec_env ''euclidean''
       \<lparr>xs = [[''x''], [''yyyyy'']], xq = [[''xx''], [''yyyy'']]\<rparr> demo_world = (Inr T, w') \<and>
       similarity demo_vec_env ''euclidean'' (z_query T) (z_support T) = Inr (similarities T))"
proof -
  let ?z = "[[1, 0], [0, 1 :: real]]"
  let ?smp = "\<lparr>xs = [[''x''], [''yyyyy'']], xq = [[''xx''], [''yyyy'']]\<rparr>"
  have he: "euclidean_dist demo_vec_env = spec_euclidean_dist"
    and hc: "cosine_similarity demo_vec_env = spec_cosine_similarity"
    by (simp_all add: demo_vec_env_def)
  have hd: "\<forall>q \<in> set ?z. length q = 2" by simp
  have wf: "well_formed 2 1 1 ?smp" by (simp add: well_formed_def)
  obtain T w' where lt: "loss_tensors demo_vec_env ''euclidean'' ?smp demo_world = (Inr T, w')"
    by (rule loss_well_formed[OF wf demo_vec_encoder_ok demo_vec_similarity_rows
          disjI1[OF refl], of demo_world])
  from loss_similarity_modes[OF he hc hd hd, of "''euclidean''" ?smp demo_world T w']
  obtain Me Mc where e: "similarity demo_vec_env ''euclidean'' ?z ?z = Inr Me"
    and c: "similarity demo_vec_env ''cosine'' ?z ?z = Inr Mc"
    and ent: "\<forall>i<length ?z. \<forall>j<length ?z.
              Me ! i ! j = Val (- sqrt (\<Sum>k<2. (?z ! i ! k - ?z ! j ! k)\<^sup>2)) \<and>
              ((\<Sum>k<2. (?z ! i ! k)\<^sup>2) \<noteq> 0 \<and> (\<Sum>k<2. (?z ! j ! k)\<^sup>2) \<noteq> 0 \<longrightarrow>
                 Mc ! i ! j =
                   Val (5 * ((\<Sum>k<2. ?z ! i ! k * ?z ! j ! k) /
                        (sqrt (\<Sum>k<2. (?z ! i ! k)\<^sup>2) * sqrt (\<Sum>k<2. (?z ! j ! k)\<^sup>2)))))"
    and l: "loss_tensors demo_vec_env ''euclidean'' ?smp demo_world = (Inr T, w') \<longrightarrow>
              similarity demo_vec_env ''euclidean'' (z_query T) (z_support T) = Inr (similarities T)"
    by (elim exE conjE) (rule that)
  have s2: "(\<Sum>k<2. f k) = f 0 + f (Suc 0)" for f :: "nat \<Rightarrow> real"
    by (simp add: numeral_2_eq_2)
  have e00: "Me ! 0 ! 0 = Val 0" using ent[rule_format, of 0 0] by (simp add: s2)
  have e01: "Me ! 0 ! 1 = Val (- sqrt 2)" using ent[rule_format, of 0 1] by (simp add: s2)
  have e10: "Me ! 1 ! 0 = Val (- sqrt 2)" using ent[rule_format, of 1 0] by (simp add: s2)
  have e11: "Me ! 1 ! 1 = Val 0" using ent[rule_format, of 1 1] by (simp add: s2)
  have c00: "Mc ! 0 ! 0 = Val 5" using ent[rule_format, of 0 0] by (simp add: s2)
  have c01: "Mc ! 0 ! 1 = Val 0" using ent[rule_format, of 0 1] by (simp add: s2)
  have first: "\<exists>Me Mc. similarity demo_vec_env ''euclidean'' ?z ?z = Inr Me \<and>
      similarity demo_vec_env ''cosine'' ?z ?z = Inr Mc \<and>
      Me ! 0 ! 0 = Val 0 \<and> Me ! 0 ! 1 = Val (- sqrt 2) \<and>
      Me ! 1 ! 0 = Val (- sqrt 2) \<and> Me ! 1 ! 1 = Val 0 \<and>
      Mc ! 0 ! 0 = Val 5 \<and> Mc ! 0 ! 1 = Val 0"
    by (intro exI[of _ Me] exI[of _ Mc] conjI e c e00 e01 e10 e11 c00 c01)
  have second: "\<exists>T w'. loss_tensors demo_vec_env ''euclidean'' ?smp demo_world = (Inr T, w') \<and>
       similarity demo_vec_env ''euclidean'' (z_query T) (z_support T) = Inr (similarities T)"
    using l lt by (intro exI[of _ T] exI[of _ w'] conjI lt) simp
  have l1: "length [1, 0 :: real] = 2" and l2: "length [0, 1 :: real] = 2" by simp_all
  show ?thesis by (intro conjI he hc l1 l2 first second)
qed

text \<open>
  Claim C4, as the code has it. When the numbers of support and of query class groups
  differ, \<open>loss\<close> fails with \<open>AssertionError\<close>, and when the episode has no class group
  at all it fails with \<open>IndexError\<close>; in both cases nothing has been done before, so the
  encoder has not been called. Nothing is said of empty groups inside an episode: they
  are not checked.
\<close>

theorem loss_rejects_group_count_mismatch:
  fixes E :: "('v, 'p, 'o, 'r) env" and w :: "('p, 'o, 'r) world"
  shows "(length (xq smp) \<noteq> length (xs smp) \<longrightarrow> loss E m smp w = (Inl AssertionError, w)) \<and>
         (xs smp = [] \<and> xq smp = [] \<longrightarrow> loss E m smp w = (Inl IndexError, w))"
  by (simp add: loss_def loss_tensors_def)

text \<open>The same at an episode with one support group and no query group, and at an empty one.\<close>

theorem loss_rejects_group_count_mismatch_witness:
  "length (xq \<lparr>xs = [[''a'']], xq = []\<rparr>) \<noteq> length (xs \<lparr>xs = [[''a'']], xq = []\<rparr>) \<and>
   loss demo_env ''cosine'' \<lparr>xs = [[''a'']], xq = []\<rparr> demo_world = (Inl AssertionError, demo_world) \<and>
   xs \<lparr>xs = [], xq = []\<rparr> = [] \<and> xq \<lparr>xs = [], xq = []\<rparr> = [] \<and>
   loss demo_env ''cosine'' \<lparr>xs = [], xq = []\<rparr> demo_world = (Inl IndexError, demo_world) \<and>
   enc_calls demo_world = []"
  using loss_rejects_group_count_mismatch[of "\<lparr>xs = [[''a'']], xq = []\<rparr>" demo_env "''cosine''" demo_world]
    loss_rejects_group_count_mismatch[of "\<lparr>xs = [], xq = []\<rparr>" demo_env "''cosine''" demo_world]
  by (simp add: demo_world_def)

text \<open>
  Claim C4, as it is stated, fails: an episode whose only support group is empty passes
  the assertion, the encoder is called on the query item, every class mean is the mean
  of an empty slice, and \<open>loss\<close> returns a NaN loss without any exception.
\<close>

theorem loss_empty_support_group_counterexample:
  "loss demo_env ''cosine'' \<lparr>xs = [[]], xq = [[''q'']]\<rparr> demo_world =
     (Inr \<lparr>loss_val = NaN, acc_val = Val 1, y_hat = [0]\<rparr>,
      demo_world\<lparr>rng := 1, enc_calls := [[''q'']]\<rparr>)"
  by (simp add: loss_def loss_tensors_def demo_env_def demo_world_def demo_forward_def
      similarity_def demo_cosine_similarity_def class_scores_def class_mean_def slice_def
      fmean_def fsum_def zeros_like_def set_entry_def argmax_rows_def argmax_def hits_def
      demo_cross_entropy_def demo_nll_def Let_def)

section \<open>Frame and determinism of the evaluation\<close>

lemma same_core_refl: "same_core w w"
  by (simp add: same_core_def)

lemma same_core_trans: "same_core a b \<Longrightarrow> same_core b c \<Longrightarrow> same_core a c"
  by (simp add: same_core_def)

lemma loss_tensors_frame:
  fixes E :: "('v, 'p, 'o, 'r) env" and w :: "('p, 'o, 'r) world"
  shows "same_core w (snd (loss_tensors E m smp w))"
  by (simp add: loss_tensors_def same_core_def Let_def split_beta
      split: list.split sum.split)

lemma loss_snd:
  fixes E :: "('v, 'p, 'o, 'r) env" and w :: "('p, 'o, 'r) world"
  shows "snd (loss E m smp w) = snd (loss_tensors E m smp w)"
  by (simp add: loss_def split: prod.split sum.split)

lemma loss_frame:
  fixes E :: "('v, 'p, 'o, 'r) env" and w :: "('p, 'o, 'r) world"
  shows "same_core w (snd (loss E m smp w))"
  by (simp add: loss_snd loss_tensors_frame)

lemma loss_tensors_view:
  fixes E :: "('v, 'p, 'o, 'r) env" and w1 w2 :: "('p, 'o, 'r) world"
  assumes "same_view w1 w2"
  shows "fst (loss_tensors E m smp w1) = fst (loss_tensors E m smp w2) \<and>
         same_view (snd (loss_tensors E m smp w1)) (snd (loss_tensors E m smp w2))"
  using assms
  by (simp add: loss_tensors_def same_view_def Let_def split_beta
      split: list.split sum.split)

lemma loss_view:
  fixes E :: "('v, 'p, 'o, 'r) env" and w1 w2 :: "('p, 'o, 'r) world"
  assumes "same_view w1 w2"
  shows "fst (loss E m smp w1) = fst (loss E m smp w2) \<and>
         same_view (snd (loss E m smp w1)) (snd (loss E m smp w2))"
proof -
  from loss_tensors_view[OF assms, of E m smp]
  have a: "fst (loss_tensors E m smp w1) = fst (loss_tensors E m smp w2)"
    and b: "same_view (snd (loss_tensors E m smp w1)) (snd (loss_tensors E m smp w2))"
    by simp_all
  have "fst (loss E m smp w1) = fst (loss E m smp w2)"
    using a by (cases "loss_tensors E m smp w1"; cases "loss_tensors E m smp w2")
      (auto simp: loss_def split: sum.split)
  then show ?thesis using b by (simp add: loss_snd)
qed


lemma same_core_rng: "same_core w (w\<lparr>rng := r\<rparr>)"
  by (simp add: same_core_def)

lemma same_view_rng: "same_view w1 w2 \<Longrightarrow> same_view (w1\<lparr>rng := r\<rparr>) (w2\<lparr>rng := r\<rparr>)"
  by (simp add: same_view_def)

lemma test_episodes_frame:
  fixes E :: "('v, 'p, 'o, 'r) env" and w :: "('p, 'o, 'r) world"
  shows "same_core w (snd (snd (test_episodes E m ns nc nq n data w accs ls)))"
proof (induction n arbitrary: data w accs ls)
  case 0
  then show ?case by (simp add: same_core_refl)
next
  case (Suc n)
  obtain r1 dd r where ce: "create_episode E data ns nc nq (rng w) = (r1, dd, r)"
    by (cases "create_episode E data ns nc nq (rng w)") auto
  show ?case
  proof (cases r1)
    case (Inl e)
    then show ?thesis using ce by (simp add: same_core_rng)
  next
    case (Inr episode)
    obtain r2 w2 where lo: "loss E m episode (w\<lparr>rng := r\<rparr>) = (r2, w2)"
      by (cases "loss E m episode (w\<lparr>rng := r\<rparr>)") auto
    have "same_core (w\<lparr>rng := r\<rparr>) w2" using loss_frame[of "w\<lparr>rng := r\<rparr>" E m episode] lo by simp
    then have c: "same_core w w2" using same_core_rng[of w r] same_core_trans by blast
    show ?thesis
    proof (cases r2)
      case (Inl e)
      then show ?thesis using ce Inr lo c by simp
    next
      case (Inr ld)
      have "same_core w2 (snd (snd (test_episodes E m ns nc nq n dd w2
                (accs @ [acc_val ld]) (ls @ [loss_val ld]))))"
        by (rule Suc.IH)
      with c have "same_core w (snd (snd (test_episodes E m ns nc nq n dd w2
                (accs @ [acc_val ld]) (ls @ [loss_val ld]))))"
        by (rule same_core_trans)
      then show ?thesis using ce \<open>r1 = Inr episode\<close> lo Inr by simp
    qed
  qed
qed

lemma test_episodes_view:
  fixes E :: "('v, 'p, 'o, 'r) env" and w1 w2 :: "('p, 'o, 'r) world"
  assumes "same_view w1 w2"
  shows "fst (test_episodes E m ns nc nq n data w1 accs ls) =
         fst (test_episodes E m ns nc nq n data w2 accs ls) \<and>
         fst (snd (test_episodes E m ns nc nq n data w1 accs ls)) =
         fst (snd (test_episodes E m ns nc nq n data w2 accs ls)) \<and>
         same_view (snd (snd (test_episodes E m ns nc nq n data w1 accs ls)))
                   (snd (snd (test_episodes E m ns nc nq n data w2 accs ls)))"
  using assms
proof (induction n arbitrary: data w1 w2 accs ls)
  case 0
  then show ?case by simp
next
  case (Suc n)
  have rg: "rng w1 = rng w2" using Suc.prems by (simp add: same_view_def)
  obtain r1 dd r where ce: "create_episode E data ns nc nq (rng w2) = (r1, dd, r)"
    by (cases "create_episode E data ns nc nq (rng w2)") auto
  have sv: "same_view (w1\<lparr>rng := r\<rparr>) (w2\<lparr>rng := r\<rparr>)"
    using Suc.prems by (rule same_view_rng)
  show ?case
  proof (cases r1)
    case (Inl e)
    then show ?thesis using ce rg sv by simp
  next
    case (Inr episode)
    obtain ra wa where la: "loss E m episode (w1\<lparr>rng := r\<rparr>) = (ra, wa)"
      by (cases "loss E m episode (w1\<lparr>rng := r\<rparr>)") auto
    obtain rb wb where lb: "loss E m episode (w2\<lparr>rng := r\<rparr>) = (rb, wb)"
      by (cases "loss E m episode (w2\<lparr>rng := r\<rparr>)") auto
    from loss_view[OF sv, of E m episode] la lb
    have eq: "ra = rb" and v: "same_view wa wb" by simp_all
    show ?thesis
    proof (cases rb)
      case (Inl e)
      then show ?thesis using ce rg \<open>r1 = Inr episode\<close> la lb eq v by simp
    next
      case (Inr ld)
      from Suc.IH[OF v, of dd "accs @ [acc_val ld]" "ls @ [loss_val ld]"]
      show ?thesis using ce rg \<open>r1 = Inr episode\<close> la lb eq Inr by simp
    qed
  qed
qed

lemma test_step_frame:
  fixes E :: "('v, 'p, 'o, 'r) env" and w :: "('p, 'o, 'r) world"
  assumes "test_step E m data ns nc nq n w = (res, dd, w')"
  shows "params w' = params w \<and> opt_state w' = opt_state w \<and> n_updates w' = n_updates w"
proof -
  let ?t = "test_episodes E m ns nc nq (nat n) data (w\<lparr>training := False\<rparr>) [] []"
  have "same_core (w\<lparr>training := False\<rparr>) (snd (snd ?t))" by (rule test_episodes_frame)
  moreover have "w' = snd (snd ?t)"
    using assms by (auto simp: test_step_def split: prod.splits sum.splits)
  ultimately show ?thesis by (simp add: same_core_def)
qed

lemma test_step_view:
  fixes E :: "('v, 'p, 'o, 'r) env" and w1 w2 :: "('p, 'o, 'r) world"
  assumes "params w1 = params w2" "rng w1 = rng w2"
  shows "fst (test_step E m data ns nc nq n w1) = fst (test_step E m data ns nc nq n w2) \<and>
         fst (snd (test_step E m data ns nc nq n w1)) = fst (snd (test_step E m data ns nc nq n w2))"
proof -
  let ?a = "test_episodes E m ns nc nq (nat n) data (w1\<lparr>training := False\<rparr>) [] []"
  let ?b = "test_episodes E m ns nc nq (nat n) data (w2\<lparr>training := False\<rparr>) [] []"
  have "same_view (w1\<lparr>training := False\<rparr>) (w2\<lparr>training := False\<rparr>)"
    using assms by (simp add: same_view_def)
  from test_episodes_view[OF this, of E m ns nc nq "nat n" data "[]" "[]"]
  have "fst ?a = fst ?b" "fst (snd ?a) = fst (snd ?b)" by simp_all
  then show ?thesis
    by (cases ?a; cases ?b) (auto simp: test_step_def split: sum.splits)
qed

lemmas demo_defs = loss_def loss_tensors_def demo_env_def demo_world_def demo_forward_def
  similarity_def demo_euclidean_dist_def demo_cosine_similarity_def class_scores_def
  class_mean_def slice_def fmean_def fsum_def zeros_like_def set_entry_def argmax_rows_def
  argmax_def hits_def demo_cross_entropy_def demo_nll_def Let_def test_step_def
  demo_create_episode_def demo_data_def demo_backward_step_def train_step_def

lemma demo_static_test_step:
  "\<exists>res w'. test_step demo_static_env ''euclidean'' demo_data 1 2 1 1 demo_world =
              (Inr res, demo_data, w') \<and> results_acc res = Val 1"
  by (simp add: demo_defs demo_static_env_def demo_static_episode_def)

text \<open>
  Claim C7, as the code has it. A call of \<open>test_step\<close> leaves the parameters of the
  network and the state of the optimizer as they were, and makes no optimizer update.
  Its metrics are determined by the parameters, the seed and the contents of the
  dictionary: run again right after itself, with the generator put back to the same
  seed, it returns the same loss and accuracy when the dictionary it left has the
  contents it was given; and so does a call from any world with the same parameters and
  seed on the same contents.
\<close>

theorem test_step_frame_and_determinism:
  fixes E :: "('v, 'p, 'o, 'r) env" and w :: "('p, 'o, 'r) world"
  assumes "test_step E m data ns nc nq n w = (res, dd, w')"
  shows "params w' = params w \<and> opt_state w' = opt_state w \<and> n_updates w' = n_updates w \<and>
         (dd = data \<longrightarrow> fst (test_step E m dd ns nc nq n (w'\<lparr>rng := rng w\<rparr>)) = res) \<and>
         (\<forall>w2. params w2 = params w \<and> rng w2 = rng w \<longrightarrow>
               fst (test_step E m data ns nc nq n w2) = res)"
proof -
  have fr: "params w' = params w \<and> opt_state w' = opt_state w \<and> n_updates w' = n_updates w"
    using assms by (rule test_step_frame)
  have det: "fst (test_step E m data ns nc nq n w2) = res"
    if "params w2 = params w" "rng w2 = rng w" for w2 :: "('p, 'o, 'r) world"
    using test_step_view[OF that, of E m data ns nc nq n] assms by simp
  have "fst (test_step E m data ns nc nq n (w'\<lparr>rng := rng w\<rparr>)) = res"
    by (rule det) (simp_all add: fr)
  then have row: "dd = data \<longrightarrow> fst (test_step E m dd ns nc nq n (w'\<lparr>rng := rng w\<rparr>)) = res"
    by simp
  from fr det row show ?thesis by blast
qed

text \<open>
  The same at one evaluation episode of the small instance whose sampler leaves the
  dictionary as it is.
\<close>

theorem test_step_frame_and_determinism_witness:
  "\<exists>res w'. test_step demo_static_env ''euclidean'' demo_data 1 2 1 1 demo_world =
              (Inr res, demo_data, w') \<and>
     results_acc res = Val 1 \<and>
     params w' = params demo_world \<and> opt_state w' = opt_state demo_world \<and>
     n_updates w' = n_updates demo_world \<and>
     fst (test_step demo_static_env ''euclidean'' demo_data 1 2 1 1
            (w'\<lparr>rng := rng demo_world\<rparr>)) = Inr res \<and>
     params (w'\<lparr>rng := rng demo_world\<rparr>) = params demo_world \<and>
     rng (w'\<lparr>rng := rng demo_world\<rparr>) = rng demo_world"
proof -
  from demo_static_test_step obtain res w' where
    t: "test_step demo_static_env ''euclidean'' demo_data 1 2 1 1 demo_world =
              (Inr res, demo_data, w')"
    and a: "results_acc res = Val 1" by blast
  note T = test_step_frame_and_determinism[OF t]
  have p: "params w' = params demo_world" by (rule T[THEN conjunct1])
  have q: "opt_state w' = opt_state demo_world" by (rule T[THEN conjunct2, THEN conjunct1])
  have u: "n_updates w' = n_updates demo_world"
    by (rule T[THEN conjunct2, THEN conjunct2, THEN conjunct1])
  have r: "fst (test_step demo_static_env ''euclidean'' demo_data 1 2 1 1
            (w'\<lparr>rng := rng demo_world\<rparr>)) = Inr res"
    by (rule T[THEN conjunct2, THEN conjunct2, THEN conjunct2, THEN conjunct1, rule_format,
          OF refl])
  have p': "params (w'\<lparr>rng := rng demo_world\<rparr>) = params demo_world" using p by simp
  have r': "rng (w'\<lparr>rng := rng demo_world\<rparr>) = rng demo_world" by simp
  show ?thesis
    by (intro exI[of _ res] exI[of _ w'] conjI t a p q u r p' r')
qed

text \<open>
  Claim C7, as it is stated, fails: \<open>test_step\<close> hands its dictionary to the sampler,
  which reorders the class lists in place, so the run right after the first one, with
  the generator put back to the same seed, draws another episode. Here the accuracy is
  1/2 in the first run and 1 in the second.
\<close>

theorem test_step_rerun_counterexample:
  "map_sum id results_acc
     (fst (test_step demo_env ''euclidean'' demo_order_data 1 2 1 1 demo_world)) =
     Inr (Val (1 / 2)) \<and>
   map_sum id results_acc
     (fst (test_step demo_env ''euclidean''
            (fst (snd (test_step demo_env ''euclidean'' demo_order_data 1 2 1 1 demo_world)))
            1 2 1 1
            ((snd (snd (test_step demo_env ''euclidean'' demo_order_data 1 2 1 1 demo_world)))
               \<lparr>rng := rng demo_world\<rparr>))) =
     Inr (Val 1)"
  by (simp add: demo_defs demo_order_data_def)

section \<open>The validation history and the loop body\<close>

lemma finite_vals_append: "finite_vals (as @ bs) = finite_vals as @ finite_vals bs"
  by (induction as rule: finite_vals.induct) simp_all

lemma fl_gt_best_seen:
  "fl_gt acc (best_seen accs) \<longleftrightarrow> improvement_at (accs @ [acc]) (length accs)"
  by (cases acc) (simp_all add: best_seen_def improvement_at_def)

lemma improvement_at_append:
  "i < length accs \<Longrightarrow> improvement_at (accs @ [acc]) i = improvement_at accs i"
  by (simp add: improvement_at_def nth_append split: fl.split)

lemma evals_since_improvement_snoc:
  "evals_since_improvement (accs @ [acc]) =
     (if improvement_at (accs @ [acc]) (length accs) then 0
      else Suc (evals_since_improvement accs))"
proof -
  have "takeWhile (\<lambda>i. \<not> improvement_at (accs @ [acc]) i) (rev [0..<length accs]) =
        takeWhile (\<lambda>i. \<not> improvement_at accs i) (rev [0..<length accs])"
    by (rule takeWhile_cong) (simp_all add: improvement_at_append)
  then show ?thesis by (simp add: evals_since_improvement_def)
qed

lemma best_seen_snoc:
  "best_seen (accs @ [acc]) = (if fl_gt acc (best_seen accs) then acc else best_seen accs)"
proof (cases acc)
  case NaN
  then show ?thesis by (simp add: best_seen_def finite_vals_append)
next
  case (Val a)
  define M where "M = Max (set (0 # finite_vals accs))"
  have b: "best_seen accs = Val M" by (simp only: best_seen_def M_def)
  have "set (0 # finite_vals (accs @ [acc])) = insert a (set (0 # finite_vals accs))"
    using Val by (auto simp: finite_vals_append)
  then have "Max (set (0 # finite_vals (accs @ [acc]))) = Max (insert a (set (0 # finite_vals accs)))"
    by (simp only:)
  also have "\<dots> = max a (Max (set (0 # finite_vals accs)))"
    by (rule Max_insert) simp_all
  finally have "Max (set (0 # finite_vals (accs @ [acc]))) = max a M"
    by (simp only: M_def)
  then have "best_seen (accs @ [acc]) = Val (max a M)"
    by (simp only: best_seen_def)
  then show ?thesis using Val b by (simp add: max_def)
qed

lemma track_valid_consistent:
  assumes "counter_consistent st" "valid_accs st' = valid_accs st @ [acc]"
    "n_eval_since_last_best st' = n_eval_since_last_best st" "best_valid_acc st' = best_valid_acc st"
  shows "counter_consistent (track_valid acc st')"
proof -
  have v: "valid_accs (track_valid acc st') = valid_accs st @ [acc]"
    using assms(2) by (simp add: track_valid_def valid_accs_def)
  show ?thesis
    using assms(1,3,4) unfolding counter_consistent_def v
    by (simp add: track_valid_def evals_since_improvement_snoc best_seen_snoc fl_gt_best_seen)
qed

lemma init_consistent: "counter_consistent (init_state w train valid test)"
  by (simp add: counter_consistent_def init_state_def valid_accs_def init_log_dict_def
      evals_since_improvement_def best_seen_def)


lemma train_step_updates:
  fixes E :: "('v, 'p, 'o, 'r) env" and w :: "('p, 'o, 'r) world"
  assumes "train_step E m data ns nc nq w = (Inr ld, dd, w')"
  shows "n_updates w' = Suc (n_updates w)"
proof -
  obtain r1 d1 r where ce: "create_episode E data ns nc nq (rng w) = (r1, d1, r)"
    by (cases "create_episode E data ns nc nq (rng w)") auto
  show ?thesis
  proof (cases r1)
    case (Inl e)
    then show ?thesis using assms ce by (simp add: train_step_def)
  next
    case (Inr episode)
    obtain r2 w2 where lo: "loss E m episode (w\<lparr>training := True, rng := r\<rparr>) = (r2, w2)"
      by (cases "loss E m episode (w\<lparr>training := True, rng := r\<rparr>)") auto
    have "same_core (w\<lparr>training := True, rng := r\<rparr>) w2"
      using loss_frame[of "w\<lparr>training := True, rng := r\<rparr>" E m episode] lo by simp
    then have n: "n_updates w2 = n_updates w" by (simp add: same_core_def)
    show ?thesis
      using assms ce Inr lo n
      by (cases r2) (auto simp: train_step_def Let_def split_beta)
  qed
qed

lemma train_step_ok:
  fixes E :: "('v, 'p, 'o, 'r) env" and w :: "('p, 'o, 'r) world"
  assumes "sampler_ok E N K Q D" and "encoder_ok E" and "similarity_rows E"
    and "m = ''euclidean'' \<or> m = ''cosine''" and "D data"
  shows "\<exists>ld dd w'. train_step E m data (int K) (int N) (int Q) w = (Inr ld, dd, w') \<and> D dd"
proof -
  from assms(1,5) obtain smp dd r where
    ce: "create_episode E data (int K) (int N) (int Q) (rng w) = (Inr smp, dd, r)"
    and wf: "well_formed N K Q smp" and dd: "D dd"
    unfolding sampler_ok_def by blast
  show ?thesis
  proof (rule loss_well_formed[OF wf assms(2,3,4), of "w\<lparr>training := True, rng := r\<rparr>"])
    fix T w' tgt pred
    assume "loss E m smp (w\<lparr>training := True, rng := r\<rparr>) =
       (Inr \<lparr>loss_val = cross_entropy E (distances_from_query_to_classes T) tgt,
             acc_val = fmean (hits tgt pred), y_hat = pred\<rparr>, w')"
    then show ?thesis using ce dd by (simp add: train_step_def Let_def split_beta)
  qed
qed

lemma log_appendD:
  assumes "log_append k r ld = Inr ld'"
  shows "\<exists>l. ld k = Some l \<and> ld' = ld(k \<mapsto> l @ [r])"
  using assms by (auto simp: log_append_def split: option.splits)

lemma log_trainD:
  assumes "log_train step st = Inr st'"
  shows "\<exists>l r. log_dict st ''train'' = Some l \<and>
           st' = st\<lparr>log_dict := (log_dict st)(''train'' \<mapsto> l @ [r]),
                    train_accuracies := [], train_losses := []\<rparr>"
  using assms by (auto simp: log_train_def split: sum.splits dest!: log_appendD)

lemma evaluate_splitD:
  fixes E :: "('v, 'p, 'o, 'r) env" and st :: "('p, 'o, 'r) run_state"
  assumes "evaluate_split E cfg step t st = Inr st'"
  shows "(set_data t st = None \<and> st' = st) \<or>
         (\<exists>data res dd w l. set_data t st = Some data \<and>
            test_step E (metric cfg) data (n_support cfg) (n_classes cfg) (n_query cfg)
              (n_test_episodes cfg) (wld st) = (Inr res, dd, w) \<and>
            log_dict st t = Some l \<and>
            st' = (if t = ''valid'' then track_valid (results_acc res) else (\<lambda>s. s))
                    (put_set_data t dd
                       (st\<lparr>wld := w,
                           log_dict := (log_dict st)(t \<mapsto> l @
                             [\<lparr>rec_accuracy = results_acc res, rec_loss = results_loss res,
                               global_step = step\<rparr>])\<rparr>)))"
  using assms
  by (auto simp: evaluate_split_def Let_def split: option.splits prod.splits sum.splits
      dest!: log_appendD)


lemma eval_keeps_refl: "eval_keeps st st"
  by (simp add: eval_keeps_def)

lemma eval_keeps_trans: "eval_keeps a b \<Longrightarrow> eval_keeps b c \<Longrightarrow> eval_keeps a c"
  by (simp add: eval_keeps_def)

lemma evaluate_split_valid_keeps:
  fixes E :: "('v, 'p, 'o, 'r) env" and st :: "('p, 'o, 'r) run_state"
  assumes "evaluate_split E cfg step ''valid'' st = Inr st'"
  shows "eval_keeps st st'"
proof -
  from evaluate_splitD[OF assms]
  consider "st' = st"
    | data res dd w l where "valid_data_dict st = Some data"
      "test_step E (metric cfg) data (n_support cfg) (n_classes cfg) (n_query cfg)
              (n_test_episodes cfg) (wld st) = (Inr res, dd, w)"
      "log_dict st ''valid'' = Some l"
      "st' = track_valid (results_acc res)
               (st\<lparr>wld := w,
                   log_dict := (log_dict st)(''valid'' \<mapsto> l @
                     [\<lparr>rec_accuracy = results_acc res, rec_loss = results_loss res,
                       global_step = step\<rparr>]),
                   valid_data_dict := Some dd\<rparr>)"
    by (auto simp: set_data_def put_set_data_def)
  then show ?thesis
  proof cases
    case 1
    then show ?thesis by (simp add: eval_keeps_refl)
  next
    case 2
    let ?s = "st\<lparr>wld := w,
                   log_dict := (log_dict st)(''valid'' \<mapsto> l @
                     [\<lparr>rec_accuracy = results_acc res, rec_loss = results_loss res,
                       global_step = step\<rparr>]),
                   valid_data_dict := Some dd\<rparr>"
    have n: "n_updates w = n_updates (wld st)" using test_step_frame[OF 2(2)] by simp
    have v: "valid_accs ?s = valid_accs st @ [results_acc res]"
      using 2(3) by (simp add: valid_accs_def)
    have c: "counter_consistent st \<longrightarrow> counter_consistent (track_valid (results_acc res) ?s)"
      using track_valid_consistent[OF _ v] by simp
    have t: "n_updates (wld (track_valid (results_acc res) ?s)) = n_updates (wld st)"
      "(valid_data_dict (track_valid (results_acc res) ?s) = None) = (valid_data_dict st = None)"
      "(test_data_dict (track_valid (results_acc res) ?s) = None) = (test_data_dict st = None)"
      "log_dict (track_valid (results_acc res) ?s) ''train'' = log_dict st ''train''"
      using n 2(1) by (simp_all add: track_valid_def)
    show ?thesis unfolding eval_keeps_def 2(4) using t c by blast
  qed
qed

lemma evaluate_split_test_keeps:
  fixes E :: "('v, 'p, 'o, 'r) env" and st :: "('p, 'o, 'r) run_state"
  assumes "evaluate_split E cfg step ''test'' st = Inr st'"
  shows "eval_keeps st st' \<and> valid_accs st' = valid_accs st \<and>
         n_eval_since_last_best st' = n_eval_since_last_best st"
proof -
  from evaluate_splitD[OF assms]
  consider "st' = st"
    | data res dd w l where "test_data_dict st = Some data"
      "test_step E (metric cfg) data (n_support cfg) (n_classes cfg) (n_query cfg)
              (n_test_episodes cfg) (wld st) = (Inr res, dd, w)"
      "st' = st\<lparr>wld := w,
                   log_dict := (log_dict st)(''test'' \<mapsto> l @
                     [\<lparr>rec_accuracy = results_acc res, rec_loss = results_loss res,
                       global_step = step\<rparr>]),
                   test_data_dict := Some dd\<rparr>"
    by (auto simp: set_data_def put_set_data_def)
  then show ?thesis
  proof cases
    case 1
    then show ?thesis by (simp add: eval_keeps_refl)
  next
    case 2
    have n: "n_updates w = n_updates (wld st)" using test_step_frame[OF 2(2)] by simp
    show ?thesis unfolding 2(3) using n 2(1)
      by (simp add: eval_keeps_def counter_consistent_def valid_accs_def)
  qed
qed

lemma evaluate_splits_keeps:
  fixes E :: "('v, 'p, 'o, 'r) env" and st :: "('p, 'o, 'r) run_state"
  assumes "evaluate_splits E cfg step [''valid'', ''test''] st = Inr st'"
  shows "eval_keeps st st'"
proof -
  from assms obtain st1 where a: "evaluate_split E cfg step ''valid'' st = Inr st1"
    and b: "evaluate_split E cfg step ''test'' st1 = Inr st'"
    by (auto split: sum.splits)
  show ?thesis
    using evaluate_split_valid_keeps[OF a] evaluate_split_test_keeps[OF b] eval_keeps_trans
    by blast
qed


lemma loop_bodyD:
  fixes E :: "('v, 'p, 'o, 'r) env" and st :: "('p, 'o, 'r) run_state"
  assumes "loop_body E cfg step st = Inr (st', how)"
  shows "\<exists>ld dd w st2.
           train_step E (metric cfg) (train_data_dict st) (n_support cfg) (n_classes cfg)
             (n_query cfg) (wld st) = (Inr ld, dd, w) \<and>
           log_every cfg \<noteq> 0 \<and>
           (if (int step + 1) mod log_every cfg = 0
            then log_train step
                   (st\<lparr>wld := w, train_data_dict := dd,
                       train_accuracies := train_accuracies st @ [acc_val ld],
                       train_losses := train_losses st @ [loss_val ld]\<rparr>) = Inr st2
            else st2 = st\<lparr>wld := w, train_data_dict := dd,
                       train_accuracies := train_accuracies st @ [acc_val ld],
                       train_losses := train_losses st @ [loss_val ld]\<rparr>) \<and>
           (if heldout st2 \<and> (int step + 1) mod evaluate_every cfg = 0
            then evaluate_splits E cfg step [''valid'', ''test''] st2 = Inr st' \<and>
                 how = (if early_stop_now cfg st' then Break else Continue)
            else st' = st2 \<and> how = Continue)"
proof -
  obtain r dd w where ts: "train_step E (metric cfg) (train_data_dict st) (n_support cfg)
      (n_classes cfg) (n_query cfg) (wld st) = (r, dd, w)"
    by (cases "train_step E (metric cfg) (train_data_dict st) (n_support cfg)
      (n_classes cfg) (n_query cfg) (wld st)") auto
  from assms ts obtain ld where r: "r = Inr ld"
    by (cases r) (auto simp: loop_body_def)
  let ?st1 = "st\<lparr>wld := w, train_data_dict := dd,
                       train_accuracies := train_accuracies st @ [acc_val ld],
                       train_losses := train_losses st @ [loss_val ld]\<rparr>"
  have le: "log_every cfg \<noteq> 0"
    using assms ts r by (auto simp: loop_body_def Let_def split: if_splits)
  obtain r2 where lg: "(if (int step + 1) mod log_every cfg = 0 then log_train step ?st1
                        else Inr ?st1) = r2" by simp
  from assms ts r le lg obtain st2 where st2: "r2 = Inr st2"
    by (cases r2) (auto simp: loop_body_def Let_def)
  have rest: "(if valid_data_dict st2 \<noteq> None \<or> test_data_dict st2 \<noteq> None then
                        (if evaluate_every cfg = 0 then Inl ZeroDivisionError
                         else if (int step + 1) mod evaluate_every cfg = 0 then
                           (case evaluate_splits E cfg step [''valid'', ''test''] st2 of
                              Inl e \<Rightarrow> Inl e
                            | Inr st3 \<Rightarrow>
                               Inr (st3, if early_stop_now cfg st3 then Break else Continue))
                         else Inr (st2, Continue))
                      else Inr (st2, Continue)) = Inr (st', how)"
    using assms ts r le lg st2 by (simp add: loop_body_def Let_def)
  have a: "(if (int step + 1) mod log_every cfg = 0
            then log_train step ?st1 = Inr st2 else st2 = ?st1)"
    using lg st2 by (auto split: if_splits)
  have b: "(if heldout st2 \<and> (int step + 1) mod evaluate_every cfg = 0
            then evaluate_splits E cfg step [''valid'', ''test''] st2 = Inr st' \<and>
                 how = (if early_stop_now cfg st' then Break else Continue)
            else st' = st2 \<and> how = Continue)"
    using rest unfolding heldout_def
    by (auto split: if_splits sum.splits)
  show ?thesis using ts r le a b by blast
qed

lemma log_train_keeps:
  assumes "log_train step st = Inr st'"
  shows "wld st' = wld st \<and> valid_data_dict st' = valid_data_dict st \<and>
         test_data_dict st' = test_data_dict st \<and>
         (counter_consistent st \<longrightarrow> counter_consistent st')"
  using log_trainD[OF assms]
  by (auto simp: counter_consistent_def valid_accs_def)

lemma loop_body_effect:
  fixes E :: "('v, 'p, 'o, 'r) env" and st :: "('p, 'o, 'r) run_state"
  assumes "loop_body E cfg step st = Inr (st', how)"
  shows "n_updates (wld st') = Suc (n_updates (wld st))"
    and "heldout st' = heldout st"
    and "counter_consistent st \<longrightarrow> counter_consistent st'"
    and "how = Break \<longleftrightarrow>
           heldout st \<and> (int step + 1) mod evaluate_every cfg = 0 \<and> early_stop_now cfg st'"
proof -
  from loop_bodyD[OF assms] obtain ld dd w st2 where
    ts: "train_step E (metric cfg) (train_data_dict st) (n_support cfg) (n_classes cfg)
             (n_query cfg) (wld st) = (Inr ld, dd, w)"
    and lg: "(if (int step + 1) mod log_every cfg = 0
            then log_train step
                   (st\<lparr>wld := w, train_data_dict := dd,
                       train_accuracies := train_accuracies st @ [acc_val ld],
                       train_losses := train_losses st @ [loss_val ld]\<rparr>) = Inr st2
            else st2 = st\<lparr>wld := w, train_data_dict := dd,
                       train_accuracies := train_accuracies st @ [acc_val ld],
                       train_losses := train_losses st @ [loss_val ld]\<rparr>)"
    and ev: "(if heldout st2 \<and> (int step + 1) mod evaluate_every cfg = 0
            then evaluate_splits E cfg step [''valid'', ''test''] st2 = Inr st' \<and>
                 how = (if early_stop_now cfg st' then Break else Continue)
            else st' = st2 \<and> how = Continue)"
    by blast
  let ?st1 = "st\<lparr>wld := w, train_data_dict := dd,
                       train_accuracies := train_accuracies st @ [acc_val ld],
                       train_losses := train_losses st @ [loss_val ld]\<rparr>"
  have s1: "n_updates (wld ?st1) = Suc (n_updates (wld st))" "heldout ?st1 = heldout st"
    "counter_consistent st \<longrightarrow> counter_consistent ?st1"
    using train_step_updates[OF ts]
    by (simp_all add: heldout_def counter_consistent_def valid_accs_def)
  have s2: "n_updates (wld st2) = Suc (n_updates (wld st))" "heldout st2 = heldout st"
    "counter_consistent st \<longrightarrow> counter_consistent st2"
    using lg s1 log_train_keeps[of step ?st1 st2]
    by (auto simp: heldout_def split: if_splits)
  have k: "eval_keeps st2 st'"
    using ev evaluate_splits_keeps[of E cfg step st2 st'] eval_keeps_refl[of st2]
    by (auto split: if_splits)
  show "n_updates (wld st') = Suc (n_updates (wld st))"
    using k s2 by (simp add: eval_keeps_def)
  show "heldout st' = heldout st"
    using k s2 by (simp add: eval_keeps_def heldout_def)
  show "counter_consistent st \<longrightarrow> counter_consistent st'"
    using k s2 by (simp add: eval_keeps_def)
  show "how = Break \<longleftrightarrow>
           heldout st \<and> (int step + 1) mod evaluate_every cfg = 0 \<and> early_stop_now cfg st'"
    using ev s2(2) by (auto split: if_splits)
qed

section \<open>The loop as a whole\<close>

lemma training_loop_stop: "\<not> int step < max_iter cfg \<Longrightarrow> training_loop E cfg step st = Inr (st, Continue)"
  by (simp add: training_loop.simps[of E cfg step st])

lemma training_loop_step:
  "int step < max_iter cfg \<Longrightarrow> loop_body E cfg step st = Inr (st', how) \<Longrightarrow>
     training_loop E cfg step st =
       (if how = Break then Inr (st', Break) else training_loop E cfg (Suc step) st')"
  by (simp add: training_loop.simps[of E cfg step st])

lemma training_loop_InrD:
  "int step < max_iter cfg \<Longrightarrow> training_loop E cfg step st = Inr (fin, how) \<Longrightarrow>
     \<exists>st' h. loop_body E cfg step st = Inr (st', h)"
  by (cases "loop_body E cfg step st") (auto simp: training_loop.simps[of E cfg step st])

lemma training_loop_consistent:
  fixes E :: "('v, 'p, 'o, 'r) env" and st :: "('p, 'o, 'r) run_state"
  shows "counter_consistent st \<Longrightarrow> training_loop E cfg s st = Inr (fin, how) \<Longrightarrow>
     counter_consistent fin"
proof (induction E cfg s st rule: training_loop.induct)
  case (1 E cfg step st)
  show ?case
  proof (cases "int step < max_iter cfg")
    case False
    then show ?thesis using "1.prems" training_loop_stop[OF False, of E st] by simp
  next
    case True
    from training_loop_InrD[OF True "1.prems"(2)]
    obtain st' h where lb: "loop_body E cfg step st = Inr (st', h)" by blast
    have c: "counter_consistent st'" using loop_body_effect(3)[OF lb] "1.prems"(1) by simp
    show ?thesis
    proof (cases h)
      case Break
      then show ?thesis using training_loop_step[OF True lb] "1.prems"(2) c by simp
    next
      case Continue
      then have "training_loop E cfg (Suc step) st' = Inr (fin, how)"
        using training_loop_step[OF True lb] "1.prems"(2) by simp
      moreover have "h \<noteq> Break" using Continue by simp
      ultimately show ?thesis using "1.IH"[OF True lb refl _ c] by blast
    qed
  qed
qed



lemma best_seen_nonneg: "\<exists>b. best_seen accs = Val b \<and> 0 \<le> b"
  by (simp add: best_seen_def)

lemma track_valid_zero:
  assumes "counter_consistent st"
  shows "track_valid (Val 0) st = st\<lparr>n_eval_since_last_best := n_eval_since_last_best st + 1\<rparr>"
proof -
  from best_seen_nonneg[of "valid_accs st"] assms
  obtain b where "best_valid_acc st = Val b" "0 \<le> b" by (auto simp: counter_consistent_def)
  then show ?thesis by (simp add: track_valid_def)
qed

lemma evaluate_split_valid_step:
  fixes E :: "('v, 'p, 'o, 'r) env" and st :: "('p, 'o, 'r) run_state"
  assumes "evaluate_split E cfg step ''valid'' st = Inr st'" "valid_data_dict st = Some data"
  obtains res dd w where
    "test_step E (metric cfg) data (n_support cfg) (n_classes cfg) (n_query cfg)
              (n_test_episodes cfg) (wld st) = (Inr res, dd, w)"
    "valid_accs st' = valid_accs st @ [results_acc res]"
    "if fl_gt (results_acc res) (best_valid_acc st)
     then best_valid_acc st' = results_acc res \<and> n_eval_since_last_best st' = 0
     else best_valid_acc st' = best_valid_acc st \<and>
          n_eval_since_last_best st' = n_eval_since_last_best st + 1"
proof -
  from evaluate_splitD[OF assms(1)] assms(2)
  obtain res dd w l where t: "test_step E (metric cfg) data (n_support cfg) (n_classes cfg)
              (n_query cfg) (n_test_episodes cfg) (wld st) = (Inr res, dd, w)"
    and l: "log_dict st ''valid'' = Some l"
    and s: "st' = track_valid (results_acc res)
               (st\<lparr>wld := w,
                   log_dict := (log_dict st)(''valid'' \<mapsto> l @
                     [\<lparr>rec_accuracy = results_acc res, rec_loss = results_loss res,
                       global_step = step\<rparr>]),
                   valid_data_dict := Some dd\<rparr>)"
    by (auto simp: set_data_def put_set_data_def)
  have v: "valid_accs st' = valid_accs st @ [results_acc res]"
    using l by (simp add: s track_valid_def valid_accs_def)
  have c: "if fl_gt (results_acc res) (best_valid_acc st)
     then best_valid_acc st' = results_acc res \<and> n_eval_since_last_best st' = 0
     else best_valid_acc st' = best_valid_acc st \<and>
          n_eval_since_last_best st' = n_eval_since_last_best st + 1"
    by (simp add: s track_valid_def)
  show ?thesis by (rule that[OF t v c])
qed

lemmas loop_defs = loop_body_def init_state_def init_log_dict_def log_train_def log_append_def
  evaluate_split_def set_data_def put_set_data_def track_valid_def early_stop_now_def
  demo_config_def demo_hard_data_def

section \<open>Runs of the small instance\<close>



lemma demo_valid_split:
  "\<exists>st'. evaluate_split demo_env demo_config 0 ''valid''
            (init_state demo_world demo_data (Some demo_hard_data) None) = Inr st' \<and>
         valid_accs st' = valid_accs (init_state demo_world demo_data (Some demo_hard_data) None) @ [Val 0]"
  by (simp add: loop_defs demo_defs valid_accs_def)

lemma demo_run_break:
  "\<exists>fin. run_matching demo_env demo_config demo_world demo_data (Some demo_data) None =
            Inr (fin, Break) \<and> valid_accs fin = [Val 1, Val 1]"
  by (simp add: run_matching_def loop_defs demo_defs training_loop.simps valid_accs_def)

section \<open>Claims about the training loop\<close>



text \<open>
  Claim C6. A validation evaluation appends its accuracy to the validation history and
  compares it with the best accuracy so far by strict greater-than: on improvement the
  best accuracy becomes that accuracy and the counter 0, otherwise the best accuracy
  stays and the counter grows by 1. At the end of every run that completes, the counter
  is the number of validation evaluations since the last improvement, and the best
  accuracy is the largest accuracy of the history (0.0 when none exceeds it).
\<close>

theorem validation_counter_tracks_history:
  fixes E :: "('v, 'p, 'o, 'r) env" and st :: "('p, 'o, 'r) run_state"
  shows "(evaluate_split E cfg step ''valid'' st = Inr st' \<and> valid_data_dict st = Some data \<longrightarrow>
           (\<exists>res dd w'. test_step E (metric cfg) data (n_support cfg) (n_classes cfg) (n_query cfg)
                (n_test_episodes cfg) (wld st) = (Inr res, dd, w') \<and>
              valid_accs st' = valid_accs st @ [results_acc res] \<and>
              (if fl_gt (results_acc res) (best_valid_acc st)
               then best_valid_acc st' = results_acc res \<and> n_eval_since_last_best st' = 0
               else best_valid_acc st' = best_valid_acc st \<and>
                    n_eval_since_last_best st' = n_eval_since_last_best st + 1))) \<and>
         (run_matching E cfg w train valid test = Inr (fin, how) \<longrightarrow>
            n_eval_since_last_best fin = evals_since_improvement (valid_accs fin) \<and>
            best_valid_acc fin = best_seen (valid_accs fin))"
proof (intro conjI impI)
  assume "evaluate_split E cfg step ''valid'' st = Inr st' \<and> valid_data_dict st = Some data"
  then have e: "evaluate_split E cfg step ''valid'' st = Inr st'"
    and d: "valid_data_dict st = Some data" by simp_all
  show "\<exists>res dd w'. test_step E (metric cfg) data (n_support cfg) (n_classes cfg) (n_query cfg)
                (n_test_episodes cfg) (wld st) = (Inr res, dd, w') \<and>
              valid_accs st' = valid_accs st @ [results_acc res] \<and>
              (if fl_gt (results_acc res) (best_valid_acc st)
               then best_valid_acc st' = results_acc res \<and> n_eval_since_last_best st' = 0
               else best_valid_acc st' = best_valid_acc st \<and>
                    n_eval_since_last_best st' = n_eval_since_last_best st + 1)"
  proof (rule evaluate_split_valid_step[OF e d])
    fix res dd w'
    assume "test_step E (metric cfg) data (n_support cfg) (n_classes cfg) (n_query cfg)
              (n_test_episodes cfg) (wld st) = (Inr res, dd, w')"
      "valid_accs st' = valid_accs st @ [results_acc res]"
      "if fl_gt (results_acc res) (best_valid_acc st)
       then best_valid_acc st' = results_acc res \<and> n_eval_since_last_best st' = 0
       else best_valid_acc st' = best_valid_acc st \<and>
            n_eval_since_last_best st' = n_eval_since_last_best st + 1"
    then show ?thesis by (intro exI conjI)
  qed
next
  assume r: "run_matching E cfg w train valid test = Inr (fin, how)"
  have "counter_consistent fin"
    using training_loop_consistent[OF init_consistent, of E cfg 0 w train valid test fin how] r
    by (simp add: run_matching_def)
  then show "n_eval_since_last_best fin = evals_since_improvement (valid_accs fin)"
    and "best_valid_acc fin = best_seen (valid_accs fin)"
    by (simp_all add: counter_consistent_def)
qed

text \<open>
  The same on the small instance: a first validation accuracy of 0.0, and a run with
  the validation accuracies 1.0 and 1.0.
\<close>

theorem validation_counter_tracks_history_witness:
  "(\<exists>st' res dd w'.
      evaluate_split demo_env demo_config 0 ''valid''
         (init_state demo_world demo_data (Some demo_hard_data) None) = Inr st' \<and>
      valid_data_dict (init_state demo_world demo_data (Some demo_hard_data) None) =
         Some demo_hard_data \<and>
      test_step demo_env (metric demo_config) demo_hard_data (n_support demo_config)
         (n_classes demo_config) (n_query demo_config) (n_test_episodes demo_config)
         (wld (init_state demo_world demo_data (Some demo_hard_data) None)) = (Inr res, dd, w') \<and>
      valid_accs st' = [results_acc res] \<and> results_acc res = Val 0 \<and>
      best_valid_acc st' = Val 0 \<and> n_eval_since_last_best st' = 1) \<and>
   (\<exists>fin. run_matching demo_env demo_config demo_world demo_data (Some demo_data) None =
            Inr (fin, Break) \<and>
      valid_accs fin = [Val 1, Val 1] \<and>
      n_eval_since_last_best fin = evals_since_improvement [Val 1, Val 1] \<and>
      best_valid_acc fin = best_seen [Val 1, Val 1])"
proof -
  let ?S = "init_state demo_world demo_data (Some demo_hard_data) None"
  from demo_valid_split obtain st' where
    e: "evaluate_split demo_env demo_config 0 ''valid'' ?S = Inr st'"
    and v: "valid_accs st' = valid_accs ?S @ [Val 0]" by blast
  have d: "valid_data_dict ?S = Some demo_hard_data" by (simp add: init_state_def)
  have i: "valid_accs ?S = []" "best_valid_acc ?S = Val 0" "n_eval_since_last_best ?S = 0"
    by (simp_all add: init_state_def valid_accs_def init_log_dict_def)
  from demo_run_break obtain fin where
    r: "run_matching demo_env demo_config demo_world demo_data (Some demo_data) None =
            Inr (fin, Break)"
    and vf: "valid_accs fin = [Val 1, Val 1]" by blast
  note T = validation_counter_tracks_history[where E = demo_env and cfg = demo_config
      and step = 0 and st = ?S and st' = st' and data = demo_hard_data and w = demo_world
      and train = demo_data and valid = "Some demo_data" and test = None and fin = fin
      and how = Break]
  from T[THEN conjunct1, rule_format, OF conjI[OF e d]]
  obtain res dd w' where
    t: "test_step demo_env (metric demo_config) demo_hard_data (n_support demo_config)
         (n_classes demo_config) (n_query demo_config) (n_test_episodes demo_config)
         (wld ?S) = (Inr res, dd, w')"
    and v2: "valid_accs st' = valid_accs ?S @ [results_acc res]"
    and c: "if fl_gt (results_acc res) (best_valid_acc ?S)
               then best_valid_acc st' = results_acc res \<and> n_eval_since_last_best st' = 0
               else best_valid_acc st' = best_valid_acc ?S \<and>
                    n_eval_since_last_best st' = n_eval_since_last_best ?S + 1"
    by (elim exE conjE) (rule that)
  have z: "results_acc res = Val 0" using v v2 by simp
  have c': "best_valid_acc st' = Val 0" "n_eval_since_last_best st' = 1"
    using c z i by simp_all
  have v3: "valid_accs st' = [results_acc res]" using v2 i by simp
  have first: "\<exists>st' res dd w'.
      evaluate_split demo_env demo_config 0 ''valid'' ?S = Inr st' \<and>
      valid_data_dict ?S = Some demo_hard_data \<and>
      test_step demo_env (metric demo_config) demo_hard_data (n_support demo_config)
         (n_classes demo_config) (n_query demo_config) (n_test_episodes demo_config)
         (wld ?S) = (Inr res, dd, w') \<and>
      valid_accs st' = [results_acc res] \<and> results_acc res = Val 0 \<and>
      best_valid_acc st' = Val 0 \<and> n_eval_since_last_best st' = 1"
    by (intro exI[of _ st'] exI[of _ res] exI[of _ dd] exI[of _ w'] conjI e d t v3 z c')
  have f: "n_eval_since_last_best fin = evals_since_improvement (valid_accs fin) \<and>
            best_valid_acc fin = best_seen (valid_accs fin)"
    by (rule T[THEN conjunct2, rule_format, OF r])
  have second: "\<exists>fin. run_matching demo_env demo_config demo_world demo_data (Some demo_data) None =
            Inr (fin, Break) \<and>
      valid_accs fin = [Val 1, Val 1] \<and>
      n_eval_since_last_best fin = evals_since_improvement [Val 1, Val 1] \<and>
      best_valid_acc fin = best_seen [Val 1, Val 1]"
    using f unfolding vf by (intro exI[of _ fin] conjI r vf) simp_all
  show ?thesis by (intro conjI first second)
qed

text \<open>
  Claim C10. The run starts with best accuracy 0.0 and counter 0. A validation accuracy
  of exactly 0.0 is never an improvement: on the starting state, and on every state
  whose counter and best accuracy agree with its history, the bookkeeping leaves the
  best accuracy and adds 1 to the counter; so does a validation evaluation of the loop
  whose accuracy is 0.0, the first one of a run included.
\<close>

theorem zero_accuracy_is_no_improvement:
  fixes E :: "('v, 'p, 'o, 'r) env" and st :: "('p, 'o, 'r) run_state"
  shows "best_valid_acc (init_state w train valid test) = Val 0 \<and>
         n_eval_since_last_best (init_state w train valid test) = 0 \<and>
         track_valid (Val 0) (init_state w train valid test) =
           (init_state w train valid test)\<lparr>n_eval_since_last_best := 1\<rparr> \<and>
         (counter_consistent st \<longrightarrow>
            track_valid (Val 0) st = st\<lparr>n_eval_since_last_best := n_eval_since_last_best st + 1\<rparr>) \<and>
         (counter_consistent st \<and> valid_data_dict st = Some data \<and>
          evaluate_split E cfg step ''valid'' st = Inr st' \<and>
          valid_accs st' = valid_accs st @ [Val 0] \<longrightarrow>
            n_eval_since_last_best st' = n_eval_since_last_best st + 1 \<and>
            best_valid_acc st' = best_valid_acc st)"
proof (intro conjI impI)
  show "best_valid_acc (init_state w train valid test) = Val 0"
    and "n_eval_since_last_best (init_state w train valid test) = 0"
    by (simp_all add: init_state_def)
  show "track_valid (Val 0) (init_state w train valid test) =
           (init_state w train valid test)\<lparr>n_eval_since_last_best := 1\<rparr>"
    by (simp add: init_state_def track_valid_def)
  show "track_valid (Val 0) st = st\<lparr>n_eval_since_last_best := n_eval_since_last_best st + 1\<rparr>"
    if "counter_consistent st"
    using that by (rule track_valid_zero)
next
  assume a: "counter_consistent st \<and> valid_data_dict st = Some data \<and>
          evaluate_split E cfg step ''valid'' st = Inr st' \<and>
          valid_accs st' = valid_accs st @ [Val 0]"
  from best_seen_nonneg[of "valid_accs st"] a
  obtain b where b: "best_valid_acc st = Val b" "0 \<le> b" by (auto simp: counter_consistent_def)
  have e: "evaluate_split E cfg step ''valid'' st = Inr st'"
    and d: "valid_data_dict st = Some data" using a by simp_all
  have "n_eval_since_last_best st' = n_eval_since_last_best st + 1 \<and>
        best_valid_acc st' = best_valid_acc st"
  proof (rule evaluate_split_valid_step[OF e d])
    fix res dd w'
    assume v: "valid_accs st' = valid_accs st @ [results_acc res]"
      and s: "if fl_gt (results_acc res) (best_valid_acc st)
       then best_valid_acc st' = results_acc res \<and> n_eval_since_last_best st' = 0
       else best_valid_acc st' = best_valid_acc st \<and>
            n_eval_since_last_best st' = n_eval_since_last_best st + 1"
    from v a have "results_acc res = Val 0" by simp
    with s b show ?thesis by simp
  qed
  then show "n_eval_since_last_best st' = n_eval_since_last_best st + 1"
    and "best_valid_acc st' = best_valid_acc st" by simp_all
qed

text \<open>The same on the small instance, where the first validation accuracy is 0.0.\<close>

theorem zero_accuracy_is_no_improvement_witness:
  "counter_consistent (init_state demo_world demo_data (Some demo_hard_data) None) \<and>
   valid_data_dict (init_state demo_world demo_data (Some demo_hard_data) None) =
      Some demo_hard_data \<and>
   track_valid (Val 0) (init_state demo_world demo_data (Some demo_hard_data) None) =
      (init_state demo_world demo_data (Some demo_hard_data) None)\<lparr>n_eval_since_last_best := 0 + 1\<rparr> \<and>
   (\<exists>st'. evaluate_split demo_env demo_config 0 ''valid''
            (init_state demo_world demo_data (Some demo_hard_data) None) = Inr st' \<and>
      valid_accs st' =
        valid_accs (init_state demo_world demo_data (Some demo_hard_data) None) @ [Val 0] \<and>
      n_eval_since_last_best st' = 1 \<and> best_valid_acc st' = Val 0)"
proof -
  let ?S = "init_state demo_world demo_data (Some demo_hard_data) None"
  from demo_valid_split obtain st' where
    e: "evaluate_split demo_env demo_config 0 ''valid'' ?S = Inr st'"
    and v: "valid_accs st' = valid_accs ?S @ [Val 0]" by blast
  have d: "valid_data_dict ?S = Some demo_hard_data" by (simp add: init_state_def)
  have cc: "counter_consistent ?S" by (rule init_consistent)
  have i: "best_valid_acc ?S = Val 0" "n_eval_since_last_best ?S = 0"
    by (simp_all add: init_state_def)
  note T = zero_accuracy_is_no_improvement[where E = demo_env and cfg = demo_config
      and step = 0 and st = ?S and st' = st' and data = demo_hard_data and w = demo_world
      and train = demo_data and valid = "Some demo_hard_data" and test = None]
  have t4: "track_valid (Val 0) ?S = ?S\<lparr>n_eval_since_last_best := 0 + 1\<rparr>"
    using T[THEN conjunct2, THEN conjunct2, THEN conjunct2, THEN conjunct1, rule_format, OF cc] i(2)
    by simp
  have t5: "n_eval_since_last_best st' = n_eval_since_last_best ?S + 1 \<and>
            best_valid_acc st' = best_valid_acc ?S"
    by (rule T[THEN conjunct2, THEN conjunct2, THEN conjunct2, THEN conjunct2, rule_format,
          OF conjI[OF cc conjI[OF d conjI[OF e v]]]])
  have last: "\<exists>st'. evaluate_split demo_env demo_config 0 ''valid'' ?S = Inr st' \<and>
      valid_accs st' = valid_accs ?S @ [Val 0] \<and>
      n_eval_since_last_best st' = 1 \<and> best_valid_acc st' = Val 0"
    using t5 i by (intro exI[of _ st'] conjI e v) simp_all
  show ?thesis by (intro conjI cc d t4 last)
qed

section \<open>A run without a held-out split\<close>

lemma log_step_nat: "(int s + 1) mod int l = 0 \<longleftrightarrow> Suc s mod l = 0"
proof -
  have "int (Suc s mod l) = (int s + 1) mod int l" by (simp add: zmod_int add.commute)
  then show ?thesis by (metis of_nat_eq_0_iff)
qed

lemma loop_body_no_heldout:
  fixes E :: "('v, 'p, 'o, 'r) env" and st :: "('p, 'o, 'r) run_state"
  assumes "sampler_ok E N K Q D" and "encoder_ok E" and "similarity_rows E"
    and "metric cfg = ''euclidean'' \<or> metric cfg = ''cosine''"
    and "n_support cfg = int K" and "n_classes cfg = int N" and "n_query cfg = int Q"
    and "log_every cfg = int l" and "0 < l"
    and "\<not> heldout st" and "D (train_data_dict st)" and "log_dict st ''train'' = Some recs"
  shows "\<exists>st' r. loop_body E cfg s st = Inr (st', Continue) \<and>
           n_updates (wld st') = Suc (n_updates (wld st)) \<and>
           \<not> heldout st' \<and> D (train_data_dict st') \<and>
           log_dict st' ''train'' = Some (if Suc s mod l = 0 then recs @ [r] else recs) \<and>
           log_dict st' ''valid'' = log_dict st ''valid'' \<and>
           log_dict st' ''test'' = log_dict st ''test''"
proof -
  from train_step_ok[OF assms(1,2,3,4,11), of "wld st"]
  obtain ld dd w' where ts: "train_step E (metric cfg) (train_data_dict st) (n_support cfg)
      (n_classes cfg) (n_query cfg) (wld st) = (Inr ld, dd, w')" and dd: "D dd"
    using assms(5,6,7) by auto
  have n: "n_updates w' = Suc (n_updates (wld st))" by (rule train_step_updates[OF ts])
  have nh: "valid_data_dict st = None" "test_data_dict st = None"
    using assms(10) by (simp_all add: heldout_def)
  have le: "log_every cfg \<noteq> 0" using assms(8,9) by simp
  show ?thesis
  proof (cases "Suc s mod l = 0")
    case True
    then have m: "(int s + 1) mod log_every cfg = 0" using log_step_nat[of s l] assms(8) by simp
    show ?thesis
      using ts dd n nh le m True assms(12)
      by (simp add: loop_body_def Let_def log_train_def log_append_def heldout_def)
  next
    case False
    then have m: "(int s + 1) mod log_every cfg \<noteq> 0" using log_step_nat[of s l] assms(8) by simp
    show ?thesis
      using ts dd n nh le m False assms(12)
      by (simp add: loop_body_def Let_def heldout_def)
  qed
qed

lemma training_loop_no_heldout:
  fixes E :: "('v, 'p, 'o, 'r) env" and st :: "('p, 'o, 'r) run_state"
  assumes "sampler_ok E N K Q D" and "encoder_ok E" and "similarity_rows E"
    and "metric cfg = ''euclidean'' \<or> metric cfg = ''cosine''"
    and "n_support cfg = int K" and "n_classes cfg = int N" and "n_query cfg = int Q"
    and "log_every cfg = int l" and "0 < l"
  shows "\<not> heldout st \<Longrightarrow> D (train_data_dict st) \<Longrightarrow> log_dict st ''train'' = Some recs \<Longrightarrow>
         s \<le> nat (max_iter cfg) \<Longrightarrow>
         \<exists>fin recs'. training_loop E cfg s st = Inr (fin, Continue) \<and>
           n_updates (wld fin) = n_updates (wld st) + (nat (max_iter cfg) - s) \<and>
           log_dict fin ''train'' = Some recs' \<and>
           length recs' + s div l = length recs + nat (max_iter cfg) div l \<and>
           log_dict fin ''valid'' = log_dict st ''valid'' \<and>
           log_dict fin ''test'' = log_dict st ''test''"
proof (induction "nat (max_iter cfg) - s" arbitrary: s st recs)
  case 0
  then have "\<not> int s < max_iter cfg" "s = nat (max_iter cfg)" by linarith+
  then show ?case using 0 training_loop_stop[of s cfg E st] by simp
next
  case (Suc k)
  then have lt: "int s < max_iter cfg" by linarith
  from loop_body_no_heldout[OF assms Suc.prems(1,2,3), of s]
  obtain st' r where lb: "loop_body E cfg s st = Inr (st', Continue)"
    and n: "n_updates (wld st') = Suc (n_updates (wld st))"
    and h: "\<not> heldout st'" and d: "D (train_data_dict st')"
    and lg: "log_dict st' ''train'' = Some (if Suc s mod l = 0 then recs @ [r] else recs)"
    and lv: "log_dict st' ''valid'' = log_dict st ''valid''"
    and lt': "log_dict st' ''test'' = log_dict st ''test''"
    by blast
  have k: "k = nat (max_iter cfg) - Suc s" using Suc.hyps(2) by linarith
  have b: "Suc s \<le> nat (max_iter cfg)" using lt by linarith
  from Suc.hyps(1)[OF k h d lg b]
  obtain fin recs' where tl: "training_loop E cfg (Suc s) st' = Inr (fin, Continue)"
    and nf: "n_updates (wld fin) = n_updates (wld st') + (nat (max_iter cfg) - Suc s)"
    and lf: "log_dict fin ''train'' = Some recs'"
    and len: "length recs' + Suc s div l =
        length (if Suc s mod l = 0 then recs @ [r] else recs) + nat (max_iter cfg) div l"
    and fv: "log_dict fin ''valid'' = log_dict st' ''valid''"
    and ft: "log_dict fin ''test'' = log_dict st' ''test''"
    by blast
  have t: "training_loop E cfg s st = Inr (fin, Continue)"
    using training_loop_step[OF lt lb] tl by simp
  have nn: "n_updates (wld fin) = n_updates (wld st) + (nat (max_iter cfg) - s)"
    using nf n b by linarith
  have "Suc s div l = (if Suc s mod l = 0 then Suc (s div l) else s div l)"
    by (rule div_Suc)
  then have ll: "length recs' + s div l = length recs + nat (max_iter cfg) div l"
    using len by (auto split: if_splits)
  show ?case using t nn lf ll fv ft lv lt' by simp
qed


lemma demo_sampler_ok: "sampler_ok demo_env 2 1 1 demo_data_ok"
proof -
  have "\<exists>smp dd' r'. demo_create_episode dd (int 1) (int 2) (int 1) r = (Inr smp, dd', r') \<and>
          well_formed 2 1 1 smp \<and> demo_data_ok dd'"
    if ok: "demo_data_ok dd" for dd r
  proof -
    have len: "2 \<le> length dd" and grp: "\<forall>kv \<in> set dd. 2 \<le> length (snd kv)"
      using ok by (simp_all add: demo_data_ok_def)
    have no: "\<not> (\<exists>kv \<in> set dd. int (length (snd kv)) < int 1 + int 1)"
      using grp by auto
    let ?chosen = "take 2 (rotate r dd)"
    have sub: "set ?chosen \<subseteq> set dd" using set_take_subset[of 2 "rotate r dd"] by simp
    have lc: "length ?chosen = 2" using len by simp
    have wf: "well_formed 2 1 1
        \<lparr>xs = map (\<lambda>kv. take 1 (snd kv)) ?chosen,
         xq = map (\<lambda>kv. take 1 (drop 1 (snd kv))) ?chosen\<rparr>"
    proof -
      have g: "2 \<le> length (snd kv)" if "kv \<in> set ?chosen" for kv
        using that sub grp by blast
      have a: "length (take 1 (snd kv)) = 1" if "kv \<in> set ?chosen" for kv
        using g[OF that] by simp
      have b: "length (take 1 (drop 1 (snd kv))) = 1" if "kv \<in> set ?chosen" for kv
        using g[OF that] by simp
      show ?thesis unfolding well_formed_def using lc a b by auto
    qed
    have ok': "demo_data_ok (map (\<lambda>kv. (fst kv, rotate1 (snd kv))) dd)"
      using len grp by (auto simp: demo_data_ok_def)
    show ?thesis
      using no len wf ok' by (simp add: demo_create_episode_def Let_def)
  qed
  then show ?thesis by (simp add: sampler_ok_def demo_env_def)
qed

text \<open>
  Claim C9. With \<open>max_iter = 10\<close>, no validation and no test split, a positive
  \<open>log_every\<close>, a sampler that serves well-formed episodes and an encoder and similarity
  helpers that keep their contracts, the run completes without exception, makes exactly
  10 training steps, leaves exactly \<open>10 div log_every\<close> records in the training log and
  no validation or test log, and ends by using up the range, not by the early stop.
\<close>

theorem run_without_heldout_split:
  fixes E :: "('v, 'p, 'o, 'r) env" and w :: "('p, 'o, 'r) world"
  assumes "sampler_ok E N K Q D" and "encoder_ok E" and "similarity_rows E"
    and "metric cfg = ''euclidean'' \<or> metric cfg = ''cosine''"
    and "n_support cfg = int K" and "n_classes cfg = int N" and "n_query cfg = int Q"
    and "0 < log_every cfg" and "max_iter cfg = 10" and "D train"
  shows "\<exists>fin recs. run_matching E cfg w train None None = Inr (fin, Continue) \<and>
           n_updates (wld fin) = n_updates w + 10 \<and>
           log_dict fin ''train'' = Some recs \<and>
           length recs = nat (10 div log_every cfg) \<and>
           log_dict fin ''valid'' = None \<and> log_dict fin ''test'' = None"
proof -
  let ?S = "init_state w train None None"
  define l where "l = nat (log_every cfg)"
  have l: "log_every cfg = int l" "0 < l" using assms(8) by (simp_all add: l_def)
  have i: "\<not> heldout ?S" "D (train_data_dict ?S)" "log_dict ?S ''train'' = Some []"
    "log_dict ?S ''valid'' = None" "log_dict ?S ''test'' = None" "n_updates (wld ?S) = n_updates w"
    using assms(10) by (simp_all add: init_state_def heldout_def init_log_dict_def)
  have z: "0 \<le> nat (max_iter cfg)" by simp
  from training_loop_no_heldout[OF assms(1-7) l i(1,2,3) z]
  obtain fin recs where t: "training_loop E cfg 0 ?S = Inr (fin, Continue)"
    and n: "n_updates (wld fin) = n_updates (wld ?S) + (nat (max_iter cfg) - 0)"
    and lg: "log_dict fin ''train'' = Some recs"
    and len: "length recs + 0 div l = length ([] :: log_record list) + nat (max_iter cfg) div l"
    and v: "log_dict fin ''valid'' = log_dict ?S ''valid''"
    and te: "log_dict fin ''test'' = log_dict ?S ''test''"
    by blast
  have "nat (10 div log_every cfg) = 10 div l"
    unfolding l(1) by (metis nat_int of_nat_numeral zdiv_int)
  then have len': "length recs = nat (10 div log_every cfg)" using len assms(9) by simp
  have n': "n_updates (wld fin) = n_updates w + 10" using n i(6) assms(9) by simp
  have r: "run_matching E cfg w train None None = Inr (fin, Continue)"
    using t by (simp add: run_matching_def)
  show ?thesis
    by (intro exI[of _ fin] exI[of _ recs] conjI r n' lg len') (simp_all add: v te i)
qed

text \<open>The same on the small instance with \<open>log_every = 3\<close>: three log records.\<close>

theorem run_without_heldout_split_witness:
  "sampler_ok demo_env 2 1 1 demo_data_ok \<and> encoder_ok demo_env \<and> similarity_rows demo_env \<and>
   0 < log_every (demo_config\<lparr>max_iter := 10, log_every := 3\<rparr>) \<and>
   max_iter (demo_config\<lparr>max_iter := 10, log_every := 3\<rparr>) = 10 \<and> demo_data_ok demo_data \<and>
   (\<exists>fin recs. run_matching demo_env (demo_config\<lparr>max_iter := 10, log_every := 3\<rparr>)
                   demo_world demo_data None None = Inr (fin, Continue) \<and>
      n_updates (wld fin) = 10 \<and> log_dict fin ''train'' = Some recs \<and> length recs = 3 \<and>
      log_dict fin ''valid'' = None \<and> log_dict fin ''test'' = None)"
proof -
  let ?c = "demo_config\<lparr>max_iter := 10, log_every := 3\<rparr>"
  have m: "metric ?c = ''euclidean'' \<or> metric ?c = ''cosine''" by (simp add: demo_config_def)
  have c: "n_support ?c = int 1" "n_classes ?c = int 2" "n_query ?c = int 1"
    by (simp_all add: demo_config_def)
  have le: "0 < log_every ?c" and mi: "max_iter ?c = 10" by simp_all
  have d: "demo_data_ok demo_data" by (simp add: demo_data_ok_def demo_data_def)
  from run_without_heldout_split[OF demo_sampler_ok demo_encoder_ok demo_similarity_rows
      m c le mi d, of demo_world]
  obtain fin recs where r: "run_matching demo_env ?c demo_world demo_data None None =
        Inr (fin, Continue)"
    and n: "n_updates (wld fin) = n_updates demo_world + 10"
    and lg: "log_dict fin ''train'' = Some recs"
    and len: "length recs = nat (10 div log_every ?c)"
    and v: "log_dict fin ''valid'' = None" and t: "log_dict fin ''test'' = None"
    by blast
  have n': "n_updates (wld fin) = 10" using n by (simp add: demo_world_def)
  have len': "length recs = 3" using len by simp
  have "\<exists>fin recs. run_matching demo_env ?c demo_world demo_data None None = Inr (fin, Continue) \<and>
      n_updates (wld fin) = 10 \<and> log_dict fin ''train'' = Some recs \<and> length recs = 3 \<and>
      log_dict fin ''valid'' = None \<and> log_dict fin ''test'' = None"
    by (intro exI[of _ fin] exI[of _ recs] conjI r n' lg len' v t)
  then show ?thesis
    by (intro conjI demo_sampler_ok demo_encoder_ok demo_similarity_rows le mi d)
qed

end
